theory Spec2Isabelle
  imports Complex_Main "HOL-Library.Log_Nat"
begin

section \<open>The glyph builder of scripts/build\_font.py\<close>

text \<open>
  The script draws 67 private-use glyphs into a pen object by calling the pen's
  \<^verbatim>\<open>moveTo\<close>, \<^verbatim>\<open>lineTo\<close>, \<^verbatim>\<open>curveTo\<close>, \<^verbatim>\<open>closePath\<close> and \<^verbatim>\<open>endPath\<close>
  methods, and hands glyph order, character map and outlines to the font library.
  The pen is modelled as the list of commands it has received so far; a drawing
  function takes the pen and returns the pen with its commands added at the end.
  Python's integers are unbounded (\<open>int\<close>), and \<^verbatim>\<open>//\<close> is floor division, which
  is \<open>div\<close> on \<open>int\<close>.
\<close>

subsection \<open>Path commands and the pen\<close>

type_synonym point = "int \<times> int"

datatype path_command =
    MoveTo point
  | LineTo point
  | CurveTo point point point
  | ClosePath
  | EndPath

type_synonym pen = "path_command list"

definition moveTo :: "pen \<Rightarrow> point \<Rightarrow> pen" where
  "moveTo pen p = pen @ [MoveTo p]"

definition lineTo :: "pen \<Rightarrow> point \<Rightarrow> pen" where
  "lineTo pen p = pen @ [LineTo p]"

definition curveTo :: "pen \<Rightarrow> point \<Rightarrow> point \<Rightarrow> point \<Rightarrow> pen" where
  "curveTo pen c1 c2 p = pen @ [CurveTo c1 c2 p]"

definition closePath :: "pen \<Rightarrow> pen" where
  "closePath pen = pen @ [ClosePath]"

definition endPath :: "pen \<Rightarrow> pen" where
  "endPath pen = pen @ [EndPath]"

subsection \<open>Errors\<close>

text \<open>
  No drawing function of the script has a \<^verbatim>\<open>raise\<close> statement. What can raise is
  the arithmetic: converting an integer that is too large to a float, and converting
  an infinite float to an integer, both \<^verbatim>\<open>OverflowError\<close>; and indexing an empty
  list.
\<close>

datatype py_error = OverflowError | IndexError

definition rbind :: "py_error + 'a \<Rightarrow> ('a \<Rightarrow> py_error + 'b) \<Rightarrow> py_error + 'b" where
  "rbind r f = (case r of Inl e \<Rightarrow> Inl e | Inr x \<Rightarrow> f x)"

subsection \<open>Python floats\<close>

text \<open>
  A Python float is an IEEE 754 double. \<open>PyFloat m e\<close> stands for the number
  \<open>m * 2 ^ e\<close>. Arithmetic rounds the exact result to 53 significant bits, to
  nearest, ties to even (\<open>normalise\<close>). The exponent is not bounded in the model:
  a magnitude of \<open>2 ^ 1024\<close> or more stands for an infinity. Results below the
  normal range would be rounded more coarsely by the hardware; every float of the
  script is passed to \<^verbatim>\<open>int()\<close> at once, which sends anything of magnitude
  below one to zero, so that difference is never seen. No operation of the script
  multiplies an infinity by zero, so there is no NaN.
\<close>

datatype pyfloat = PyFloat int int

definition float_val :: "pyfloat \<Rightarrow> real" where
  "float_val x = (case x of PyFloat m e \<Rightarrow> of_int m * 2 powi e)"

text \<open>\<open>rne n sh\<close> is \<open>n / 2 ^ sh\<close> rounded to the nearest integer, ties to even.\<close>

definition rne :: "int \<Rightarrow> nat \<Rightarrow> int" where
  "rne n sh =
     (let q = n div 2 ^ sh; r = n mod 2 ^ sh in
      if 2 ^ sh < 2 * r then q + 1
      else if 2 * r = 2 ^ sh \<and> odd q then q + 1
      else q)"

definition normalise :: "int \<Rightarrow> int \<Rightarrow> pyfloat" where
  "normalise m e = (let sh = nat (bitlen \<bar>m\<bar> - 53) in PyFloat (rne m sh) (e + int sh))"

text \<open>Truncation toward zero, which is what \<^verbatim>\<open>int(x)\<close> does to a float.\<close>

definition float_trunc :: "pyfloat \<Rightarrow> int" where
  "float_trunc x =
     (case x of PyFloat m e \<Rightarrow>
        if 0 \<le> e then m * 2 ^ nat e else sgn m * (\<bar>m\<bar> div 2 ^ nat (- e)))"

definition is_inf :: "pyfloat \<Rightarrow> bool" where
  "is_inf x = (2 ^ 1024 \<le> \<bar>float_trunc x\<bar>)"

text \<open>\<^verbatim>\<open>float(n)\<close> for an integer, as the mixed multiplication \<^verbatim>\<open>k * n\<close> does it:
  correctly rounded, \<^verbatim>\<open>OverflowError\<close> when the rounded value is out of range.\<close>

definition float_of_int :: "int \<Rightarrow> py_error + pyfloat" where
  "float_of_int n = (let x = normalise n 0 in if is_inf x then Inl OverflowError else Inr x)"

definition fmul :: "pyfloat \<Rightarrow> pyfloat \<Rightarrow> pyfloat" where
  "fmul x y = (case x of PyFloat m1 e1 \<Rightarrow> case y of PyFloat m2 e2 \<Rightarrow>
                 normalise (m1 * m2) (e1 + e2))"

definition py_int :: "pyfloat \<Rightarrow> py_error + int" where
  "py_int x = (if is_inf x then Inl OverflowError else Inr (float_trunc x))"

text \<open>\<^verbatim>\<open>int(c * n)\<close> for a float \<open>c\<close> and an integer \<open>n\<close> (in either order of the
  operands: the integer is converted to a float, then the floats are multiplied).\<close>

definition int_of_product :: "pyfloat \<Rightarrow> int \<Rightarrow> py_error + int" where
  "int_of_product c n = rbind (float_of_int n) (\<lambda>x. py_int (fmul c x))"

text \<open>The two float literals of the script, as the doubles nearest to them.\<close>

definition K_CIRCLE :: pyfloat where
  "K_CIRCLE = PyFloat 4974538786803375 (- 53)"   \<comment> \<open>\<^verbatim>\<open>0.5522847498\<close>\<close>

definition K_ARC :: pyfloat where
  "K_ARC = PyFloat 4953959590107546 (- 53)"   \<comment> \<open>\<^verbatim>\<open>0.55\<close>\<close>

text \<open>
  \<^verbatim>\<open>math.cos\<close> and \<^verbatim>\<open>math.sin\<close> are the C library's; their results are not fixed
  by the script or by IEEE 754, so they are a parameter of the model. The script
  takes them at two families of angles only.
\<close>

datatype angle =
    StarAngle nat   \<comment> \<open>\<^verbatim>\<open>math.pi / 2 + i * math.pi / 5\<close>\<close>
  | RayAngle nat    \<comment> \<open>\<^verbatim>\<open>i * math.pi / 4\<close>\<close>

record libm =
  math_cos :: "angle \<Rightarrow> pyfloat"
  math_sin :: "angle \<Rightarrow> pyfloat"

subsection \<open>Font metrics\<close>

definition UPM :: int where "UPM = 1000"
definition ASCENT :: int where "ASCENT = 800"
definition DESCENT :: int where "DESCENT = - 200"
definition ADVANCE_WIDTH :: int where "ADVANCE_WIDTH = 600"

subsection \<open>Primitive shapes\<close>

definition triangle_up :: "pen \<Rightarrow> int \<Rightarrow> int \<Rightarrow> int \<Rightarrow> pen" where
  "triangle_up pen cx cy sz =
     (let half = sz div 2;
          pen = moveTo pen (cx, cy + half);
          pen = lineTo pen (cx + half, cy - half);
          pen = lineTo pen (cx - half, cy - half)
      in closePath pen)"

definition triangle_down :: "pen \<Rightarrow> int \<Rightarrow> int \<Rightarrow> int \<Rightarrow> pen" where
  "triangle_down pen cx cy sz =
     (let half = sz div 2;
          pen = moveTo pen (cx, cy - half);
          pen = lineTo pen (cx + half, cy + half);
          pen = lineTo pen (cx - half, cy + half)
      in closePath pen)"

definition diamond :: "pen \<Rightarrow> int \<Rightarrow> int \<Rightarrow> int \<Rightarrow> pen" where
  "diamond pen cx cy sz =
     (let half = sz div 2;
          pen = moveTo pen (cx, cy + half);
          pen = lineTo pen (cx + half, cy);
          pen = lineTo pen (cx, cy - half);
          pen = lineTo pen (cx - half, cy)
      in closePath pen)"

definition circle :: "pen \<Rightarrow> int \<Rightarrow> int \<Rightarrow> int \<Rightarrow> py_error + pen" where
  "circle pen cx cy r =
     rbind (int_of_product K_CIRCLE r) (\<lambda>kr.
       let pen = moveTo pen (cx, cy + r);
           pen = curveTo pen (cx + kr, cy + r) (cx + r, cy + kr) (cx + r, cy);
           pen = curveTo pen (cx + r, cy - kr) (cx + kr, cy - r) (cx, cy - r);
           pen = curveTo pen (cx - kr, cy - r) (cx - r, cy - kr) (cx - r, cy);
           pen = curveTo pen (cx - r, cy + kr) (cx - kr, cy + r) (cx, cy + r)
       in Inr (closePath pen))"

definition arc_left :: "pen \<Rightarrow> int \<Rightarrow> int \<Rightarrow> int \<Rightarrow> py_error + pen" where
  "arc_left pen cx cy sz =
     (let half = sz div 2 in
      rbind (int_of_product K_ARC half) (\<lambda>k.
        let pen = moveTo pen (cx + half, cy + half);
            pen = curveTo pen (cx + half - k, cy + half) (cx, cy + k) (cx, cy);
            pen = curveTo pen (cx, cy - k) (cx + half - k, cy - half) (cx + half, cy - half)
        in Inr (endPath pen)))"

definition arc_right :: "pen \<Rightarrow> int \<Rightarrow> int \<Rightarrow> int \<Rightarrow> py_error + pen" where
  "arc_right pen cx cy sz =
     (let half = sz div 2 in
      rbind (int_of_product K_ARC half) (\<lambda>k.
        let pen = moveTo pen (cx - half, cy + half);
            pen = curveTo pen (cx - half + k, cy + half) (cx, cy + k) (cx, cy);
            pen = curveTo pen (cx, cy - k) (cx - half + k, cy - half) (cx - half, cy - half)
        in Inr (endPath pen)))"

definition arrow_right :: "pen \<Rightarrow> int \<Rightarrow> int \<Rightarrow> int \<Rightarrow> pen" where
  "arrow_right pen cx cy sz =
     (let half = sz div 2;
          qtr = sz div 4;
          pen = moveTo pen (cx - half, cy - qtr);
          pen = lineTo pen (cx, cy - qtr);
          pen = lineTo pen (cx, cy - half);
          pen = lineTo pen (cx + half, cy);
          pen = lineTo pen (cx, cy + half);
          pen = lineTo pen (cx, cy + qtr);
          pen = lineTo pen (cx - half, cy + qtr)
      in closePath pen)"

definition arrow_up :: "pen \<Rightarrow> int \<Rightarrow> int \<Rightarrow> int \<Rightarrow> pen" where
  "arrow_up pen cx cy sz =
     (let half = sz div 2;
          qtr = sz div 4;
          pen = moveTo pen (cx, cy + half);
          pen = lineTo pen (cx + half, cy);
          pen = lineTo pen (cx + qtr, cy);
          pen = lineTo pen (cx + qtr, cy - half);
          pen = lineTo pen (cx - qtr, cy - half);
          pen = lineTo pen (cx - qtr, cy);
          pen = lineTo pen (cx - half, cy)
      in closePath pen)"

definition arrow_down :: "pen \<Rightarrow> int \<Rightarrow> int \<Rightarrow> int \<Rightarrow> pen" where
  "arrow_down pen cx cy sz =
     (let half = sz div 2;
          qtr = sz div 4;
          pen = moveTo pen (cx, cy - half);
          pen = lineTo pen (cx + half, cy);
          pen = lineTo pen (cx + qtr, cy);
          pen = lineTo pen (cx + qtr, cy + half);
          pen = lineTo pen (cx - qtr, cy + half);
          pen = lineTo pen (cx - qtr, cy);
          pen = lineTo pen (cx - half, cy)
      in closePath pen)"

definition box_rect :: "pen \<Rightarrow> int \<Rightarrow> int \<Rightarrow> int \<Rightarrow> int \<Rightarrow> pen" where
  "box_rect pen x y w h =
     (let pen = moveTo pen (x, y);
          pen = lineTo pen (x + w, y);
          pen = lineTo pen (x + w, y + h);
          pen = lineTo pen (x, y + h)
      in closePath pen)"

text \<open>The loop of \<^verbatim>\<open>star_5\<close> that computes the ten vertices, over \<^verbatim>\<open>range(10)\<close>.\<close>

fun star_points :: "libm \<Rightarrow> int \<Rightarrow> int \<Rightarrow> int \<Rightarrow> int \<Rightarrow> nat list \<Rightarrow> py_error + point list" where
  "star_points L cx cy outer_r inner_r [] = Inr []"
| "star_points L cx cy outer_r inner_r (i # is) =
     (let r = (if i mod 2 = 0 then outer_r else inner_r) in
      rbind (int_of_product (math_cos L (StarAngle i)) r) (\<lambda>dx.
      rbind (int_of_product (math_sin L (StarAngle i)) r) (\<lambda>dy.
      rbind (star_points L cx cy outer_r inner_r is) (\<lambda>points.
        Inr ((cx + dx, cy + dy) # points)))))"

definition star_5 :: "libm \<Rightarrow> pen \<Rightarrow> int \<Rightarrow> int \<Rightarrow> int \<Rightarrow> int \<Rightarrow> py_error + pen" where
  "star_5 L pen cx cy outer_r inner_r =
     rbind (star_points L cx cy outer_r inner_r [0..<10]) (\<lambda>points.
       case points of
         [] \<Rightarrow> Inl IndexError
       | p0 # rest \<Rightarrow>
           (let pen = moveTo pen p0;
                pen = fold (\<lambda>p pen. lineTo pen p) rest pen
            in Inr (closePath pen)))"

definition cross :: "pen \<Rightarrow> int \<Rightarrow> int \<Rightarrow> int \<Rightarrow> pen" where
  "cross pen cx cy sz =
     (let t = sz div 6;
          half = sz div 2;
          pen = box_rect pen (cx - half) (cy - t) sz (2 * t)
      in box_rect pen (cx - t) (cy - half) (2 * t) sz)"

definition wave :: "pen \<Rightarrow> int \<Rightarrow> int \<Rightarrow> int \<Rightarrow> pen" where
  "wave pen cx cy sz =
     (let half = sz div 2;
          qtr = sz div 4;
          pen = moveTo pen (cx - half, cy);
          pen = curveTo pen (cx - qtr, cy + qtr) (cx, cy + qtr) (cx, cy);
          pen = curveTo pen (cx, cy - qtr) (cx + qtr, cy - qtr) (cx + half, cy)
      in endPath pen)"

definition dot_glyph :: "pen \<Rightarrow> int \<Rightarrow> int \<Rightarrow> int \<Rightarrow> py_error + pen" where
  "dot_glyph pen cx cy sz = circle pen cx cy (sz div 6)"

subsection \<open>Composite pictograms\<close>

definition house :: "pen \<Rightarrow> int \<Rightarrow> int \<Rightarrow> int \<Rightarrow> pen" where
  "house pen cx cy sz =
     (let half = sz div 2;
          qtr = sz div 4;
          pen = box_rect pen (cx - half + qtr) (cy - half) half half
      in triangle_up pen cx (cy + qtr) half)"

definition pillar :: "pen \<Rightarrow> int \<Rightarrow> int \<Rightarrow> int \<Rightarrow> pen" where
  "pillar pen cx cy sz =
     (let t = sz div 8;
          half = sz div 2;
          pen = box_rect pen (cx - t) (cy - half) (2 * t) sz;
          pen = box_rect pen (cx - t * 2) (cy + half - t) (4 * t) t
      in box_rect pen (cx - t * 2) (cy - half) (4 * t) t)"

definition person :: "pen \<Rightarrow> int \<Rightarrow> int \<Rightarrow> int \<Rightarrow> py_error + pen" where
  "person pen cx cy sz =
     (let head_r = sz div 6 in
      rbind (circle pen cx (cy + sz div 3) head_r) (\<lambda>pen.
        let body_h = sz div 2;
            body_w = sz div 3;
            pen = moveTo pen (cx, cy + sz div 3 - head_r - 2);
            pen = lineTo pen (cx + body_w, cy + sz div 3 - head_r - body_h);
            pen = lineTo pen (cx - body_w, cy + sz div 3 - head_r - body_h)
        in Inr (closePath pen)))"

definition CX :: int where "CX = ADVANCE_WIDTH div 2"
definition CY :: int where "CY = (ASCENT + DESCENT) div 2"
definition SZ :: int where "SZ = 400"

subsection \<open>The dispatch on the glyph name\<close>

text \<open>The loop of the \<^verbatim>\<open>rad:sun\<close> branch that draws the eight rays, over \<^verbatim>\<open>range(8)\<close>.\<close>

fun sun_rays :: "libm \<Rightarrow> pen \<Rightarrow> int \<Rightarrow> int \<Rightarrow> int \<Rightarrow> nat list \<Rightarrow> py_error + pen" where
  "sun_rays L pen cx cy sz [] = Inr pen"
| "sun_rays L pen cx cy sz (i # is) =
     rbind (int_of_product (math_cos L (RayAngle i)) (sz div 3 + 20)) (\<lambda>dx1.
     rbind (int_of_product (math_sin L (RayAngle i)) (sz div 3 + 20)) (\<lambda>dy1.
     rbind (int_of_product (math_cos L (RayAngle i)) (sz div 2)) (\<lambda>dx2.
     rbind (int_of_product (math_sin L (RayAngle i)) (sz div 2)) (\<lambda>dy2.
       let pen = moveTo pen (cx + dx1, cy + dy1);
           pen = lineTo pen (cx + dx2, cy + dy2);
           pen = endPath pen
       in sun_rays L pen cx cy sz is))))"

definition draw_glyph :: "libm \<Rightarrow> string \<Rightarrow> pen \<Rightarrow> py_error + pen" where
  "draw_glyph L glyph_name pen =
    (let cx = CX; cy = CY; sz = SZ in
     if glyph_name = ''is-a'' then Inr (triangle_up pen cx cy sz)
     else if glyph_name = ''part-of'' then arc_left pen cx cy sz
     else if glyph_name = ''has-a'' then Inr (diamond pen cx cy sz)
     else if glyph_name = ''contains'' then arc_right pen cx cy sz
     else if glyph_name = ''parent-of'' then Inr (arrow_down pen cx cy sz)
     else if glyph_name = ''child-of'' then Inr (arrow_up pen cx cy sz)
     else if glyph_name = ''similar-to'' then
       (let pen = wave pen cx (cy + 40) sz in Inr (wave pen cx (cy - 40) sz))
     else if glyph_name = ''causes'' then Inr (arrow_right pen cx cy sz)
     else if glyph_name = ''precedes'' then
       (let half = sz div 2;
            pen = moveTo pen (cx + half div 2, cy + half);
            pen = lineTo pen (cx - half div 2, cy);
            pen = lineTo pen (cx + half div 2, cy - half)
        in Inr (endPath pen))
     else if glyph_name = ''located-in'' then Inr (house pen cx cy sz)
     else if glyph_name = ''created-by'' then
       (let half = sz div 2;
            pen = moveTo pen (cx - half, cy - half);
            pen = lineTo pen (cx + half, cy + half);
            pen = endPath pen
        in Inr (triangle_up pen (cx + half - 30) (cy + half - 30) 60))
     else if glyph_name = ''depends-on'' then Inr (arrow_right pen cx cy sz)
     else if glyph_name = ''opposes'' then
       (let t = sz div 8;
            half = sz div 2;
            pen = box_rect pen (cx - half) (cy + half - t) sz t
        in Inr (box_rect pen (cx - t) (cy - half) (2 * t) sz))
     else if glyph_name = ''enables'' then Inr (arrow_right pen cx cy sz)
     else if glyph_name = ''knows'' then
       rbind (circle pen cx cy (sz div 2)) (\<lambda>pen. circle pen cx cy (sz div 4))
     else if glyph_name = ''type:person'' then person pen cx cy sz
     else if glyph_name = ''type:place'' then Inr (house pen cx cy sz)
     else if glyph_name = ''type:thing'' then
       Inr (box_rect pen (cx - sz div 3) (cy - sz div 3) ((sz * 2) div 3) ((sz * 2) div 3))
     else if glyph_name = ''type:concept'' then
       rbind (circle pen cx (cy + 40) (sz div 3)) (\<lambda>pen.
         Inr (box_rect pen (cx - 30) (cy - sz div 4) 60 40))
     else if glyph_name = ''type:event'' then
       (let half = sz div 2;
            pen = moveTo pen (cx, cy + half);
            pen = lineTo pen (cx + half div 3, cy);
            pen = lineTo pen (cx - half div 6, cy);
            pen = lineTo pen (cx, cy - half);
            pen = lineTo pen (cx - half div 3, cy);
            pen = lineTo pen (cx + half div 6, cy)
        in Inr (closePath pen))
     else if glyph_name = ''type:quantity'' then
       (let t = sz div 10;
            third = sz div 3;
            pen = box_rect pen (cx - third) (cy - sz div 2) t sz;
            pen = box_rect pen (cx + third - t) (cy - sz div 2) t sz;
            pen = box_rect pen (cx - sz div 2) (cy - third + t) sz t
        in Inr (box_rect pen (cx - sz div 2) (cy + third - t) sz t))
     else if glyph_name = ''type:time'' then
       rbind (circle pen cx cy (sz div 2)) (\<lambda>pen.
         let pen = moveTo pen (cx, cy);
             pen = lineTo pen (cx, cy + sz div 3);
             pen = endPath pen;
             pen = moveTo pen (cx, cy);
             pen = lineTo pen (cx + sz div 4, cy)
         in Inr (endPath pen))
     else if glyph_name = ''type:group'' then
       (let r = sz div 6 in
        rbind (circle pen (cx - r * 2) cy r) (\<lambda>pen.
        rbind (circle pen cx cy r) (\<lambda>pen.
          circle pen (cx + r * 2) cy r)))
     else if glyph_name = ''type:process'' then circle pen cx cy (sz div 3)
     else if glyph_name = ''type:property'' then
       (let t = sz div 10 in
        Inr (fold (\<lambda>dy pen. box_rect pen (cx - sz div 3) (cy + dy - t div 2) ((sz * 2) div 3) t)
               [(- sz) div 4, 0, sz div 4] pen))
     else if glyph_name = ''prov:asserted'' then Inr (diamond pen cx cy sz)
     else if glyph_name = ''prov:inferred'' then Inr (diamond pen cx cy sz)
     else if glyph_name = ''prov:fused'' then
       rbind (circle pen cx cy (sz div 2)) (\<lambda>pen. Inr (cross pen cx cy (sz div 2)))
     else if glyph_name = ''prov:discovered'' then star_5 L pen cx cy (sz div 2) (sz div 4)
     else if glyph_name = ''prov:gap'' then
       rbind (circle pen cx (cy + sz div 4) (sz div 4)) (\<lambda>pen.
         dot_glyph pen cx (cy - sz div 3) sz)
     else if glyph_name = ''struct:triple'' then
       (let half = sz div 2;
            pen = moveTo pen (cx + half div 2, cy + half);
            pen = lineTo pen (cx - half div 2, cy);
            pen = lineTo pen (cx + half div 2, cy - half)
        in Inr (endPath pen))
     else if glyph_name = ''struct:end'' then
       (let half = sz div 2;
            pen = moveTo pen (cx - half div 2, cy + half);
            pen = lineTo pen (cx + half div 2, cy);
            pen = lineTo pen (cx - half div 2, cy - half)
        in Inr (endPath pen))
     else if glyph_name = ''struct:chain'' then
       (let t = sz div 10 in Inr (box_rect pen (cx - sz div 2) (cy - t div 2) sz t))
     else if glyph_name = ''struct:branch'' then
       (let t = sz div 10;
            half = sz div 2;
            pen = box_rect pen (cx - t) (cy - half) (2 * t) sz
        in Inr (box_rect pen cx (cy - t div 2) half t))
     else if glyph_name = ''struct:confidence'' then circle pen cx cy (sz div 3)
     else if glyph_name = ''rad:eye'' then
       (let half = sz div 2;
            k = half div 2;
            pen = moveTo pen (cx - half, cy);
            pen = curveTo pen (cx - k, cy + k) (cx + k, cy + k) (cx + half, cy);
            pen = curveTo pen (cx + k, cy - k) (cx - k, cy - k) (cx - half, cy);
            pen = closePath pen
        in circle pen cx cy (sz div 8))
     else if glyph_name = ''rad:bird'' then
       (let half = sz div 2;
            pen = moveTo pen (cx - half, cy);
            pen = curveTo pen (cx - half div 2, cy + half) (cx, cy + half div 2) (cx, cy);
            pen = endPath pen;
            pen = moveTo pen (cx, cy);
            pen = curveTo pen (cx, cy + half div 2) (cx + half div 2, cy + half) (cx + half, cy)
        in Inr (endPath pen))
     else if glyph_name = ''rad:serpent'' then Inr (wave pen cx cy sz)
     else if glyph_name = ''rad:fish'' then
       rbind (circle pen (cx - 20) cy (sz div 3)) (\<lambda>pen.
         let half = sz div 3;
             pen = moveTo pen (cx + half, cy);
             pen = lineTo pen (cx + half + half div 2, cy + half div 2);
             pen = lineTo pen (cx + half + half div 2, cy - half div 2)
         in Inr (closePath pen))
     else if glyph_name = ''rad:hand'' then
       (let pen = box_rect pen (cx - sz div 4) (cy - sz div 4) (sz div 2) (sz div 3) in
        Inr (fold (\<lambda>i pen.
                 let x = cx - sz div 4 + (int i * (sz div 2)) div 4;
                     pen = moveTo pen (x, cy + sz div 12);
                     pen = lineTo pen (x, cy + sz div 3)
                 in endPath pen)
               [0..<5] pen))
     else if glyph_name = ''rad:foot'' then
       rbind (circle pen cx (cy - 30) (sz div 3)) (\<lambda>pen.
         Inr (box_rect pen (cx - sz div 6) (cy - sz div 3) (sz div 3) (sz div 4)))
     else if glyph_name = ''rad:face'' then
       rbind (circle pen cx cy (sz div 2)) (\<lambda>pen.
       rbind (circle pen (cx - sz div 6) (cy + sz div 8) (sz div 16)) (\<lambda>pen.
         circle pen (cx + sz div 6) (cy + sz div 8) (sz div 16)))
     else if glyph_name = ''rad:figure'' then person pen cx cy sz
     else if glyph_name = ''rad:sun'' then
       rbind (circle pen cx cy (sz div 3)) (\<lambda>pen. sun_rays L pen cx cy sz [0..<8])
     else if glyph_name = ''rad:moon'' then circle pen cx cy (sz div 2)
     else if glyph_name = ''rad:water'' then
       (let pen = wave pen cx (cy + 40) sz;
            pen = wave pen cx cy sz
        in Inr (wave pen cx (cy - 40) sz))
     else if glyph_name = ''rad:mountain'' then
       (let pen = triangle_up pen (cx - sz div 4) cy (sz div 2) in
        Inr (triangle_up pen (cx + sz div 4) (cy - sz div 8) ((sz * 3) div 4)))
     else if glyph_name = ''rad:tree'' then
       (let pen = triangle_up pen cx (cy + sz div 6) (sz div 2) in
        Inr (box_rect pen (cx - sz div 16) (cy - sz div 3) (sz div 8) (sz div 3)))
     else if glyph_name = ''rad:fire'' then Inr (triangle_up pen cx cy sz)
     else if glyph_name = ''rad:wind'' then
       Inr (fold (\<lambda>dy pen. wave pen cx (cy + dy) sz) [- 40, 0, 40] pen)
     else if glyph_name = ''rad:earth'' then
       rbind (circle pen cx cy (sz div 2)) (\<lambda>pen. Inr (cross pen cx cy sz))
     else if glyph_name = ''rad:house'' then Inr (house pen cx cy sz)
     else if glyph_name = ''rad:pillar'' then Inr (pillar pen cx cy sz)
     else if glyph_name = ''rad:arch'' then
       (let half = sz div 2 in
        rbind (int_of_product K_ARC half) (\<lambda>k.
          let pen = moveTo pen (cx - half, cy - half);
              pen = lineTo pen (cx - half, cy);
              pen = curveTo pen (cx - half, cy + k) (cx - k, cy + half) (cx, cy + half);
              pen = curveTo pen (cx + k, cy + half) (cx + half, cy + k) (cx + half, cy);
              pen = lineTo pen (cx + half, cy - half)
          in Inr (endPath pen)))
     else if glyph_name = ''rad:wall'' then
       Inr (box_rect pen (cx - sz div 2) (cy - sz div 4) sz (sz div 2))
     else if glyph_name = ''rad:gate'' then
       (let t = sz div 8;
            half = sz div 2;
            pen = box_rect pen (cx - half) (cy - half) t sz;
            pen = box_rect pen (cx + half - t) (cy - half) t sz
        in Inr (box_rect pen (cx - half) (cy + half - t) sz t))
     else if glyph_name = ''rad:path'' then
       (let t = sz div 12;
            pen = box_rect pen (cx - sz div 2) (cy + t) sz t
        in Inr (box_rect pen (cx - sz div 2) (cy - 2 * t) sz t))
     else if glyph_name = ''rad:bridge'' then
       (let half = sz div 2 in
        rbind (int_of_product K_ARC half) (\<lambda>k.
          let pen = moveTo pen (cx - half, cy);
              pen = curveTo pen (cx - half, cy + k) (cx - k, cy + half div 2) (cx, cy + half div 2);
              pen = curveTo pen (cx + k, cy + half div 2) (cx + half, cy + k) (cx + half, cy);
              pen = endPath pen;
              t = sz div 10;
              pen = box_rect pen (cx - half) (cy - half) t half
          in Inr (box_rect pen (cx + half - t) (cy - half) t half)))
     else if glyph_name = ''rad:tower'' then circle pen cx cy (sz div 2)
     else if glyph_name = ''rad:ankh'' then
       rbind (circle pen cx (cy + sz div 4) (sz div 5)) (\<lambda>pen.
         let t = sz div 10;
             pen = box_rect pen (cx - t) (cy - sz div 3) (2 * t) (sz div 2)
         in Inr (box_rect pen (cx - sz div 4) cy (sz div 2) t))
     else if glyph_name = ''rad:spiral'' then
       rbind (circle pen cx cy (sz div 3)) (\<lambda>pen.
         let pen = moveTo pen (cx + sz div 3, cy);
             pen = curveTo pen (cx + sz div 2, cy + sz div 4) (cx + sz div 4, cy + sz div 2)
                     (cx, cy + sz div 3)
         in Inr (endPath pen))
     else if glyph_name = ''rad:star'' then star_5 L pen cx cy (sz div 2) (sz div 4)
     else if glyph_name = ''rad:arrow'' then Inr (arrow_right pen cx cy sz)
     else if glyph_name = ''rad:loop'' then
       (let r = sz div 4 in
        rbind (circle pen (cx - r) cy r) (\<lambda>pen. circle pen (cx + r) cy r))
     else if glyph_name = ''rad:cross'' then Inr (cross pen cx cy sz)
     else if glyph_name = ''rad:wave'' then Inr (wave pen cx cy sz)
     else if glyph_name = ''rad:dot'' then dot_glyph pen cx cy sz
     else Inr (box_rect pen (cx - 20) (cy - 20) 40 40))"

subsection \<open>The codepoint map\<close>

text \<open>The dict literal \<^verbatim>\<open>GLYPH_MAP\<close>, as the list of its items in the order written.\<close>

definition GLYPH_MAP :: "(nat \<times> string) list" where
  "GLYPH_MAP =
    [(0xE000, ''is-a''), (0xE001, ''part-of''), (0xE002, ''has-a''),
     (0xE003, ''contains''), (0xE004, ''parent-of''), (0xE005, ''child-of''),
     (0xE006, ''similar-to''), (0xE007, ''causes''), (0xE008, ''precedes''),
     (0xE009, ''located-in''), (0xE00A, ''created-by''), (0xE00B, ''depends-on''),
     (0xE00C, ''opposes''), (0xE00D, ''enables''), (0xE00E, ''knows''),
     (0xE00F, ''type:person''), (0xE010, ''type:place''), (0xE011, ''type:thing''),
     (0xE012, ''type:concept''), (0xE013, ''type:event''), (0xE014, ''type:quantity''),
     (0xE015, ''type:time''), (0xE016, ''type:group''), (0xE017, ''type:process''),
     (0xE018, ''type:property''),
     (0xE019, ''prov:asserted''), (0xE01A, ''prov:inferred''),
     (0xE01B, ''prov:fused''), (0xE01C, ''prov:discovered''),
     (0xE01D, ''prov:gap''),
     (0xE01E, ''struct:triple''), (0xE01F, ''struct:end''),
     (0xE020, ''struct:chain''), (0xE021, ''struct:branch''),
     (0xE022, ''struct:confidence''),
     (0xE100, ''rad:eye''), (0xE101, ''rad:bird''), (0xE102, ''rad:serpent''),
     (0xE103, ''rad:fish''), (0xE104, ''rad:hand''), (0xE105, ''rad:foot''),
     (0xE106, ''rad:face''), (0xE107, ''rad:figure''),
     (0xE108, ''rad:sun''), (0xE109, ''rad:moon''), (0xE10A, ''rad:water''),
     (0xE10B, ''rad:mountain''), (0xE10C, ''rad:tree''), (0xE10D, ''rad:fire''),
     (0xE10E, ''rad:wind''), (0xE10F, ''rad:earth''),
     (0xE110, ''rad:house''), (0xE111, ''rad:pillar''), (0xE112, ''rad:arch''),
     (0xE113, ''rad:wall''), (0xE114, ''rad:gate''), (0xE115, ''rad:path''),
     (0xE116, ''rad:bridge''), (0xE117, ''rad:tower''),
     (0xE118, ''rad:ankh''), (0xE119, ''rad:spiral''), (0xE11A, ''rad:star''),
     (0xE11B, ''rad:arrow''), (0xE11C, ''rad:loop''), (0xE11D, ''rad:cross''),
     (0xE11E, ''rad:wave''), (0xE11F, ''rad:dot'')]"

subsection \<open>Glyph names, glyph order and character map\<close>

text \<open>
  \<^verbatim>\<open>build_font\<close> is the one function of the script that calls the font library:
  the classes \<^verbatim>\<open>FontBuilder\<close> and \<^verbatim>\<open>T2Pen\<close> of fontTools, which the script imports
  and which are not part of the repository. None of these calls is modelled: neither
  the constructor, \<^verbatim>\<open>setupGlyphOrder\<close>, \<^verbatim>\<open>setupCharacterMap\<close>, \<^verbatim>\<open>setupCFF\<close>, the
  metrics and naming tables, nor the final \<^verbatim>\<open>save\<close>. What the library does with its
  arguments, whether it accepts them, and whether a font file is written, is outside
  the model. The model has the values that \<^verbatim>\<open>build_font\<close> computes itself and
  passes to the library: the list \<^verbatim>\<open>glyph_names\<close> and the dictionary \<^verbatim>\<open>cmap\<close> as the
  first loop leaves them, which are the arguments of \<^verbatim>\<open>setupGlyphOrder\<close> and
  \<^verbatim>\<open>setupCharacterMap\<close>, and for each glyph name the commands that the body of the
  second loop sends to the pen of that glyph.
\<close>

text \<open>The format \<^verbatim>\<open>f"uni{codepoint:04X}"\<close>: upper-case hexadecimal, padded with
  zeros to four digits.\<close>

definition hex_char :: "nat \<Rightarrow> char" where
  "hex_char d = ''0123456789ABCDEF'' ! d"

fun hex_upper :: "nat \<Rightarrow> string" where
  "hex_upper n = (if n < 16 then [hex_char n] else hex_upper (n div 16) @ [hex_char (n mod 16)])"

declare hex_upper.simps [simp del]

definition uni_name :: "nat \<Rightarrow> string" where
  "uni_name codepoint =
     (let digits = hex_upper codepoint in
      ''uni'' @ replicate (4 - length digits) (CHR ''0'') @ digits)"

text \<open>
  \<^verbatim>\<open>int(s, 16)\<close> on a non-empty string of hexadecimal digits, which is all the script
  passes to it (the four digits it has formatted itself). Python's \<^verbatim>\<open>int\<close> accepts
  more than that (a sign, a \<^verbatim>\<open>0x\<close> prefix, blanks around the number, underscores
  between digits) and raises \<^verbatim>\<open>ValueError\<close> on every other string. The model does not
  describe \<^verbatim>\<open>int\<close> on those strings: \<open>None\<close> says that the string is not covered,
  not that Python raises.
\<close>

definition hex_value :: "char \<Rightarrow> nat option" where
  "hex_value c =
     (let n = (of_char c :: nat) in
      if 48 \<le> n \<and> n \<le> 57 then Some (n - 48)
      else if 65 \<le> n \<and> n \<le> 70 then Some (n - 55)
      else if 97 \<le> n \<and> n \<le> 102 then Some (n - 87)
      else None)"

definition hex_step :: "char \<Rightarrow> nat option \<Rightarrow> nat option" where
  "hex_step c acc =
     (case acc of
        None \<Rightarrow> None
      | Some n \<Rightarrow> (case hex_value c of None \<Rightarrow> None | Some d \<Rightarrow> Some (16 * n + d)))"

definition int_base16 :: "string \<Rightarrow> nat option" where
  "int_base16 s = (if s = [] then None else fold hex_step s (Some 0))"

text \<open>The first loop, over \<^verbatim>\<open>sorted(GLYPH_MAP.items())\<close>.\<close>

fun name_glyphs :: "(nat \<times> string) list \<Rightarrow> string list \<times> (nat \<rightharpoonup> string)
                      \<Rightarrow> string list \<times> (nat \<rightharpoonup> string)" where
  "name_glyphs [] tables = tables"
| "name_glyphs ((codepoint, name) # items) (glyph_names, cmap) =
     (let glyph_name = uni_name codepoint in
      name_glyphs items (glyph_names @ [glyph_name], cmap(codepoint \<mapsto> glyph_name)))"

text \<open>
  \<^verbatim>\<open>glyph_names\<close> and \<^verbatim>\<open>cmap\<close> after the first loop, as \<^verbatim>\<open>build_font\<close> passes them
  to \<^verbatim>\<open>fb.setupGlyphOrder\<close> and \<^verbatim>\<open>fb.setupCharacterMap\<close>. \<^verbatim>\<open>sorted\<close> orders the
  items by codepoint; the names are never compared, since no two items have the same
  codepoint.
\<close>

definition glyph_names_cmap :: "string list \<times> (nat \<rightharpoonup> string)" where
  "glyph_names_cmap =
     name_glyphs (sort_key fst GLYPH_MAP) ([''.notdef'', ''space''], [0x20 \<mapsto> ''space''])"

text \<open>
  The body of the second loop for one glyph name: the commands sent to the fresh pen
  \<^verbatim>\<open>T2Pen(ADVANCE_WIDTH, None)\<close> before \<^verbatim>\<open>pen.getCharString()\<close> is called on it, or
  the error that the drawing raises. The result is \<open>None\<close> for a glyph name whose
  tail \<^verbatim>\<open>glyph_name[3:]\<close> is a string that \<open>int_base16\<close> does not cover.
\<close>

definition draw_char_string :: "libm \<Rightarrow> string \<Rightarrow> (py_error + pen) option" where
  "draw_char_string L glyph_name =
     (let pen = [] in
      if glyph_name = ''.notdef'' then Some (Inr (box_rect pen 100 0 400 700))
      else if glyph_name = ''space'' then Some (Inr pen)
      else (case int_base16 (drop 3 glyph_name) of
              None \<Rightarrow> None
            | Some cp \<Rightarrow>
                (let draw_name = (case map_of GLYPH_MAP cp of None \<Rightarrow> [] | Some name \<Rightarrow> name)
                 in Some (draw_glyph L draw_name pen))))"

subsection \<open>Vocabulary of the properties\<close>

text \<open>A libm whose cosine and sine stay within \<open>[-1, 1]\<close>.\<close>

definition libm_bounded :: "libm \<Rightarrow> bool" where
  "libm_bounded L = (\<forall>a. \<bar>float_val (math_cos L a)\<bar> \<le> 1 \<and> \<bar>float_val (math_sin L a)\<bar> \<le> 1)"

text \<open>The subpaths of a command sequence: each ends at its \<open>ClosePath\<close> or
  \<open>EndPath\<close>; commands after the last terminator form an unterminated rest.\<close>

fun subpaths_from :: "path_command list \<Rightarrow> path_command list \<Rightarrow> path_command list list" where
  "subpaths_from cur [] = (if cur = [] then [] else [cur])"
| "subpaths_from cur (c # cs) =
     (if c = ClosePath \<or> c = EndPath then (cur @ [c]) # subpaths_from [] cs
      else subpaths_from (cur @ [c]) cs)"

definition subpaths :: "path_command list \<Rightarrow> path_command list list" where
  "subpaths cs = subpaths_from [] cs"

definition is_segment :: "path_command \<Rightarrow> bool" where
  "is_segment c = (case c of LineTo p \<Rightarrow> True | CurveTo a b p \<Rightarrow> True | _ \<Rightarrow> False)"

text \<open>A subpath that starts with a move, goes on with lines and curves and ends
  with the given terminator.\<close>

definition subpath_ending :: "path_command \<Rightarrow> path_command list \<Rightarrow> bool" where
  "subpath_ending fin sp =
     (case sp of
        MoveTo p # rest \<Rightarrow> rest \<noteq> [] \<and> last rest = fin \<and> list_all is_segment (butlast rest)
      | _ \<Rightarrow> False)"

definition all_closed :: "path_command list \<Rightarrow> bool" where
  "all_closed cs = (cs \<noteq> [] \<and> list_all (subpath_ending ClosePath) (subpaths cs))"

definition all_open :: "path_command list \<Rightarrow> bool" where
  "all_open cs = (cs \<noteq> [] \<and> list_all (subpath_ending EndPath) (subpaths cs))"

text \<open>Truncation of a real number toward zero.\<close>

definition real_trunc :: "real \<Rightarrow> int" where
  "real_trunc x = (if 0 \<le> x then \<lfloor>x\<rfloor> else \<lceil>x\<rceil>)"

text \<open>A libm to instantiate theorems with: it returns 1 for every cosine and 0 for
  every sine.\<close>

definition libm_example :: libm where
  "libm_example = \<lparr>math_cos = (\<lambda>a. PyFloat 1 0), math_sin = (\<lambda>a. PyFloat 0 0)\<rparr>"

section \<open>The codepoint map\<close>

lemma GLYPH_MAP_keys:
  "map fst GLYPH_MAP = [0xE000..<0xE023] @ [0xE100..<0xE120]"
  unfolding GLYPH_MAP_def by (simp add: upt_rec)

lemma GLYPH_MAP_keys_distinct: "distinct (map fst GLYPH_MAP)"
  unfolding GLYPH_MAP_keys by simp

lemma GLYPH_MAP_key_set:
  "set (map fst GLYPH_MAP) = {0xE000..0xE022} \<union> {0xE100..0xE11F}"
proof -
  have "set (map fst GLYPH_MAP) = {0xE000..<0xE023} \<union> {0xE100..<0xE120}"
    by (simp only: GLYPH_MAP_keys set_append set_upt)
  also have "{0xE000..<0xE023} = {0xE000..(0xE022::nat)}"
    by (simp only: set_eq_iff atLeastLessThan_iff atLeastAtMost_iff) presburger
  also have "{0xE100..<0xE120} = {0xE100..(0xE11F::nat)}"
    by (simp only: set_eq_iff atLeastLessThan_iff atLeastAtMost_iff) presburger
  finally show ?thesis .
qed

text \<open>
  Claim C1. \<^verbatim>\<open>GLYPH_MAP\<close> has exactly 67 entries with pairwise distinct codepoints
  (so the dict has 67 keys); exactly 35 codepoints lie in \<open>[0xE000, 0xE022]\<close>,
  exactly 32 lie in \<open>[0xE100, 0xE11F]\<close>, none lies outside the two ranges, and the
  codepoints are all of both ranges.
\<close>

theorem GLYPH_MAP_coverage:
  "length GLYPH_MAP = 67
   \<and> distinct (map fst GLYPH_MAP)
   \<and> card (dom (map_of GLYPH_MAP)) = 67
   \<and> length (filter (\<lambda>cp. 0xE000 \<le> cp \<and> cp \<le> 0xE022) (map fst GLYPH_MAP)) = 35
   \<and> length (filter (\<lambda>cp. 0xE100 \<le> cp \<and> cp \<le> 0xE11F) (map fst GLYPH_MAP)) = 32
   \<and> list_all (\<lambda>cp. (0xE000 \<le> cp \<and> cp \<le> 0xE022) \<or> (0xE100 \<le> cp \<and> cp \<le> 0xE11F))
        (map fst GLYPH_MAP)
   \<and> set (map fst GLYPH_MAP) = {0xE000..0xE022} \<union> {0xE100..0xE11F}"
proof -
  have len: "length GLYPH_MAP = 67"
    by (simp add: GLYPH_MAP_def)
  have card: "card (dom (map_of GLYPH_MAP)) = 67"
    using distinct_card [OF GLYPH_MAP_keys_distinct] len
    by (simp add: dom_map_of_conv_image_fst)
  have fixed: "length (filter (\<lambda>cp. 0xE000 \<le> cp \<and> cp \<le> 0xE022) (map fst GLYPH_MAP)) = 35"
    unfolding GLYPH_MAP_def by simp
  have rad: "length (filter (\<lambda>cp. 0xE100 \<le> cp \<and> cp \<le> 0xE11F) (map fst GLYPH_MAP)) = 32"
    unfolding GLYPH_MAP_def by simp
  have all: "list_all (\<lambda>cp. (0xE000 \<le> cp \<and> cp \<le> 0xE022) \<or> (0xE100 \<le> cp \<and> cp \<le> 0xE11F))
        (map fst GLYPH_MAP)"
    unfolding GLYPH_MAP_def by simp
  from len GLYPH_MAP_keys_distinct card fixed rad all GLYPH_MAP_key_set show ?thesis by blast
qed

section \<open>Single glyphs\<close>

lemmas pen_defs = moveTo_def lineTo_def curveTo_def closePath_def endPath_def

lemma triangle_up_commands:
  "triangle_up pen cx cy sz =
     pen @ [MoveTo (cx, cy + sz div 2), LineTo (cx + sz div 2, cy - sz div 2),
            LineTo (cx - sz div 2, cy - sz div 2), ClosePath]"
  by (simp add: triangle_up_def pen_defs Let_def)

lemma box_rect_commands:
  "box_rect pen x y w h =
     pen @ [MoveTo (x, y), LineTo (x + w, y), LineTo (x + w, y + h), LineTo (x, y + h), ClosePath]"
  by (simp add: box_rect_def pen_defs Let_def)

lemma cell_constants: "CX = 300" "CY = 300" "SZ = 400"
  by (simp_all add: CX_def CY_def SZ_def ADVANCE_WIDTH_def ASCENT_def DESCENT_def)

text \<open>
  Claim C6. Codepoint \<open>0xE000\<close> resolves to \<^verbatim>\<open>is-a\<close>, and drawing \<^verbatim>\<open>is-a\<close> adds
  exactly one closed subpath to the pen: the triangle through \<open>(cx, cy + half)\<close>,
  \<open>(cx + half, cy - half)\<close>, \<open>(cx - half, cy - half)\<close> in that order, for the cell
  centre \<open>(cx, cy) = (CX, CY)\<close> and \<open>half = SZ div 2\<close>.
\<close>

theorem is_a_glyph:
  "map_of GLYPH_MAP 0xE000 = Some ''is-a''
   \<and> draw_glyph L ''is-a'' pen =
       Inr (pen @ [MoveTo (CX, CY + SZ div 2), LineTo (CX + SZ div 2, CY - SZ div 2),
                   LineTo (CX - SZ div 2, CY - SZ div 2), ClosePath])
   \<and> subpaths [MoveTo (CX, CY + SZ div 2), LineTo (CX + SZ div 2, CY - SZ div 2),
                LineTo (CX - SZ div 2, CY - SZ div 2), ClosePath]
       = [[MoveTo (300, 500), LineTo (500, 100), LineTo (100, 100), ClosePath]]"
proof -
  have m: "map_of GLYPH_MAP 0xE000 = Some ''is-a''"
    by (simp add: GLYPH_MAP_def)
  have d: "draw_glyph L ''is-a'' pen = Inr (triangle_up pen CX CY SZ)"
    by (simp add: draw_glyph_def)
  show ?thesis
    by (simp add: m d triangle_up_commands cell_constants subpaths_def)
qed

text \<open>
  Claim C7. Codepoint \<open>0xE009\<close> resolves to \<^verbatim>\<open>located-in\<close>, whose drawing is the
  house: first the rectangle body, then an upward triangle of size \<open>SZ div 2\<close>
  centred \<open>SZ div 4\<close> above the cell centre; these are exactly two closed subpaths,
  in that order.
\<close>

theorem located_in_glyph:
  "map_of GLYPH_MAP 0xE009 = Some ''located-in''
   \<and> draw_glyph L ''located-in'' pen =
        Inr (triangle_up
               (box_rect pen (CX - SZ div 2 + SZ div 4) (CY - SZ div 2) (SZ div 2) (SZ div 2))
               CX (CY + SZ div 4) (SZ div 2))
   \<and> draw_glyph L ''located-in'' pen =
        Inr (pen @
             [MoveTo (200, 100), LineTo (400, 100), LineTo (400, 300), LineTo (200, 300), ClosePath,
              MoveTo (300, 500), LineTo (400, 300), LineTo (200, 300), ClosePath])
   \<and> subpaths
        [MoveTo (200, 100), LineTo (400, 100), LineTo (400, 300), LineTo (200, 300), ClosePath,
         MoveTo (300, 500), LineTo (400, 300), LineTo (200, 300), ClosePath]
       = [[MoveTo (200, 100), LineTo (400, 100), LineTo (400, 300), LineTo (200, 300), ClosePath],
          [MoveTo (300, 500), LineTo (400, 300), LineTo (200, 300), ClosePath]]"
proof -
  have m: "map_of GLYPH_MAP 0xE009 = Some ''located-in''"
    by (simp add: GLYPH_MAP_def)
  have d: "draw_glyph L ''located-in'' pen = Inr (house pen CX CY SZ)"
    by (simp add: draw_glyph_def)
  show ?thesis
    by (simp add: m d house_def Let_def triangle_up_commands box_rect_commands cell_constants
          subpaths_def)
qed

section \<open>Names that the dispatch does not know\<close>

lemma draw_glyph_fallback:
  assumes "name \<notin> set (map snd GLYPH_MAP)"
  shows "draw_glyph L name pen = Inr (box_rect pen (CX - 20) (CY - 20) 40 40)"
  using assms by (simp add: GLYPH_MAP_def draw_glyph_def)

lemma unregistered_example: "''no-such-glyph'' \<notin> set (map snd GLYPH_MAP)"
  by (simp add: GLYPH_MAP_def)

lemma GLYPH_MAP_names_distinct: "distinct (map snd GLYPH_MAP)"
  by (simp add: GLYPH_MAP_def)

text \<open>
  Claim C2 says that a name outside the 67 registered ones makes the dispatch raise
  a lookup failure and emit nothing. The code has no such error: its last branch
  draws a square. The claim is false at the name \<^verbatim>\<open>no-such-glyph\<close>.
\<close>

theorem unregistered_not_raised:
  "''no-such-glyph'' \<notin> set (map snd GLYPH_MAP)
   \<and> (\<forall>L. \<exists>cmds. cmds \<noteq> [] \<and> draw_glyph L ''no-such-glyph'' [] = Inr cmds)"
  using unregistered_example draw_glyph_fallback [OF unregistered_example]
  by (simp add: box_rect_commands)

text \<open>
  Claim C2, as amended: for every name that is not one of the 67 registered names
  the dispatch raises no error; it returns normally, having added five path
  commands to the pen.
\<close>

theorem unregistered_returns_normally:
  assumes "name \<notin> set (map snd GLYPH_MAP)"
  shows "(\<forall>e. draw_glyph L name pen \<noteq> Inl e)
         \<and> (\<exists>cmds. length cmds = 5 \<and> draw_glyph L name pen = Inr (pen @ cmds))"
  using draw_glyph_fallback [OF assms, of L pen]
  by (simp add: box_rect_commands)

theorem unregistered_returns_normally_witness:
  "''no-such-glyph'' \<notin> set (map snd GLYPH_MAP)
   \<and> (\<forall>e. draw_glyph libm_example ''no-such-glyph'' [] \<noteq> Inl e)
   \<and> (\<exists>cmds. length cmds = 5 \<and> draw_glyph libm_example ''no-such-glyph'' [] = Inr ([] @ cmds))"
  using unregistered_returns_normally [OF unregistered_example, of libm_example "[]"]
    unregistered_example
  by simp

text \<open>
  Claim C3. For every name that is not one of the 67 registered names the dispatch
  adds exactly one closed subpath and nothing else: the rectangle from
  \<open>(cx - 20, cy - 20)\<close> with width 40 and height 40, a square of side 40 around the
  cell centre \<open>(cx, cy) = (CX, CY) = (300, 300)\<close>.
\<close>

theorem unregistered_draws_square:
  assumes "name \<notin> set (map snd GLYPH_MAP)"
  shows "draw_glyph L name pen =
           Inr (pen @ [MoveTo (CX - 20, CY - 20), LineTo (CX - 20 + 40, CY - 20),
                       LineTo (CX - 20 + 40, CY - 20 + 40), LineTo (CX - 20, CY - 20 + 40),
                       ClosePath])
         \<and> draw_glyph L name pen = Inr (box_rect pen (CX - 20) (CY - 20) 40 40)
         \<and> subpaths [MoveTo (CX - 20, CY - 20), LineTo (CX - 20 + 40, CY - 20),
                       LineTo (CX - 20 + 40, CY - 20 + 40), LineTo (CX - 20, CY - 20 + 40),
                       ClosePath]
           = [[MoveTo (280, 280), LineTo (320, 280), LineTo (320, 320), LineTo (280, 320),
               ClosePath]]"
  using draw_glyph_fallback [OF assms, of L pen]
  by (simp add: box_rect_commands subpaths_def cell_constants)

theorem unregistered_draws_square_witness:
  "''no-such-glyph'' \<notin> set (map snd GLYPH_MAP)
   \<and> draw_glyph libm_example ''no-such-glyph'' [] =
       Inr [MoveTo (280, 280), LineTo (320, 280), LineTo (320, 320), LineTo (280, 320), ClosePath]"
  using unregistered_draws_square [OF unregistered_example, of libm_example "[]"]
    unregistered_example
  by (simp add: cell_constants)

section \<open>Glyphs that share an outline\<close>

text \<open>
  Claim C10. Each of the fourteen listed pairs of names is drawn by the same
  commands: whatever the pen holds, the dispatch returns the same result for both
  names of a pair.
\<close>

theorem identical_outlines:
  "draw_glyph L ''causes'' pen = draw_glyph L ''enables'' pen
   \<and> draw_glyph L ''causes'' pen = draw_glyph L ''depends-on'' pen
   \<and> draw_glyph L ''causes'' pen = draw_glyph L ''rad:arrow'' pen
   \<and> draw_glyph L ''has-a'' pen = draw_glyph L ''prov:asserted'' pen
   \<and> draw_glyph L ''prov:asserted'' pen = draw_glyph L ''prov:inferred'' pen
   \<and> draw_glyph L ''precedes'' pen = draw_glyph L ''struct:triple'' pen
   \<and> draw_glyph L ''located-in'' pen = draw_glyph L ''type:place'' pen
   \<and> draw_glyph L ''located-in'' pen = draw_glyph L ''rad:house'' pen
   \<and> draw_glyph L ''type:process'' pen = draw_glyph L ''struct:confidence'' pen
   \<and> draw_glyph L ''rad:moon'' pen = draw_glyph L ''rad:tower'' pen
   \<and> draw_glyph L ''type:person'' pen = draw_glyph L ''rad:figure'' pen
   \<and> draw_glyph L ''prov:discovered'' pen = draw_glyph L ''rad:star'' pen
   \<and> draw_glyph L ''rad:serpent'' pen = draw_glyph L ''rad:wave'' pen
   \<and> draw_glyph L ''is-a'' pen = draw_glyph L ''rad:fire'' pen"
proof -
  have arrow: "draw_glyph L ''causes'' pen = Inr (arrow_right pen CX CY SZ)"
    "draw_glyph L ''enables'' pen = Inr (arrow_right pen CX CY SZ)"
    "draw_glyph L ''depends-on'' pen = Inr (arrow_right pen CX CY SZ)"
    "draw_glyph L ''rad:arrow'' pen = Inr (arrow_right pen CX CY SZ)"
    by (simp_all add: draw_glyph_def)
  have dia: "draw_glyph L ''has-a'' pen = Inr (diamond pen CX CY SZ)"
    "draw_glyph L ''prov:asserted'' pen = Inr (diamond pen CX CY SZ)"
    "draw_glyph L ''prov:inferred'' pen = Inr (diamond pen CX CY SZ)"
    by (simp_all add: draw_glyph_def)
  have bracket: "draw_glyph L ''precedes'' pen = draw_glyph L ''struct:triple'' pen"
    by (simp add: draw_glyph_def)
  have hs: "draw_glyph L ''located-in'' pen = Inr (house pen CX CY SZ)"
    "draw_glyph L ''type:place'' pen = Inr (house pen CX CY SZ)"
    "draw_glyph L ''rad:house'' pen = Inr (house pen CX CY SZ)"
    by (simp_all add: draw_glyph_def)
  have c3: "draw_glyph L ''type:process'' pen = circle pen CX CY (SZ div 3)"
    "draw_glyph L ''struct:confidence'' pen = circle pen CX CY (SZ div 3)"
    by (simp_all add: draw_glyph_def)
  have c2: "draw_glyph L ''rad:moon'' pen = circle pen CX CY (SZ div 2)"
    "draw_glyph L ''rad:tower'' pen = circle pen CX CY (SZ div 2)"
    by (simp_all add: draw_glyph_def)
  have pers: "draw_glyph L ''type:person'' pen = person pen CX CY SZ"
    "draw_glyph L ''rad:figure'' pen = person pen CX CY SZ"
    by (simp_all add: draw_glyph_def)
  have star: "draw_glyph L ''prov:discovered'' pen = star_5 L pen CX CY (SZ div 2) (SZ div 4)"
    "draw_glyph L ''rad:star'' pen = star_5 L pen CX CY (SZ div 2) (SZ div 4)"
    by (simp_all add: draw_glyph_def)
  have wv: "draw_glyph L ''rad:serpent'' pen = Inr (wave pen CX CY SZ)"
    "draw_glyph L ''rad:wave'' pen = Inr (wave pen CX CY SZ)"
    by (simp_all add: draw_glyph_def)
  have tri: "draw_glyph L ''is-a'' pen = Inr (triangle_up pen CX CY SZ)"
    "draw_glyph L ''rad:fire'' pen = Inr (triangle_up pen CX CY SZ)"
    by (simp_all add: draw_glyph_def)
  show ?thesis
    by (simp only: arrow dia bracket hs c3 c2 pers star wv tri simp_thms)
qed

section \<open>Float arithmetic\<close>

text \<open>Rounding to 53 bits changes a number by at most the fraction \<open>2 ^ -53\<close> of
  its magnitude, and \<^verbatim>\<open>int()\<close> is truncation of the float's value toward zero.\<close>

lemma rne_error: "\<bar>rne n sh * 2 ^ sh - n\<bar> * 2 \<le> 2 ^ sh"
proof -
  define q where "q = n div 2 ^ sh"
  define r where "r = n mod 2 ^ sh"
  have n: "n = q * 2 ^ sh + r"
    unfolding q_def r_def by (rule div_mult_mod_eq [symmetric])
  have r0: "0 \<le> r" and r1: "r < 2 ^ sh"
    by (simp_all add: r_def)
  have cases: "rne n sh = q + 1 \<and> 2 ^ sh \<le> 2 * r \<or> rne n sh = q \<and> 2 * r \<le> 2 ^ sh"
    by (auto simp add: rne_def Let_def q_def r_def)
  then show ?thesis
  proof
    assume a: "rne n sh = q + 1 \<and> 2 ^ sh \<le> 2 * r"
    then have "rne n sh * 2 ^ sh - n = 2 ^ sh - r"
      by (simp add: n algebra_simps)
    with a r1 show ?thesis by simp
  next
    assume a: "rne n sh = q \<and> 2 * r \<le> 2 ^ sh"
    then have "rne n sh * 2 ^ sh - n = - r"
      by (simp add: n)
    with a r0 show ?thesis by simp
  qed
qed

lemma rne_zero_shift [simp]: "rne n 0 = n"
  by (simp add: rne_def)

lemma float_val_PyFloat: "float_val (PyFloat m e) = of_int m * 2 powi e"
  by (simp add: float_val_def)

lemma powi_add_nat: "(2::real) powi (e + int k) = 2 powi e * 2 ^ k"
  by (simp add: power_int_add)

lemma float_val_normalise:
  "float_val (normalise m e) =
     of_int (rne m (nat (bitlen \<bar>m\<bar> - 53)) * 2 ^ nat (bitlen \<bar>m\<bar> - 53)) * 2 powi e"
  unfolding normalise_def Let_def float_val_PyFloat powi_add_nat
  by (simp only: of_int_mult of_int_power of_int_numeral mult_ac)

lemma normalise_rel_error:
  "\<bar>float_val (normalise m e) - of_int m * 2 powi e\<bar> \<le> \<bar>of_int m * 2 powi e\<bar> / 2 ^ 53"
proof -
  define sh where "sh = nat (bitlen \<bar>m\<bar> - 53)"
  have pos: "(0::real) < 2 powi e" by simp
  have diff: "float_val (normalise m e) - of_int m * 2 powi e
      = of_int (rne m sh * 2 ^ sh - m) * 2 powi e"
    by (simp add: float_val_normalise sh_def algebra_simps)
  have "\<bar>rne m sh * 2 ^ sh - m\<bar> * 2 ^ 53 \<le> \<bar>m\<bar>"
  proof (cases "sh = 0")
    case True
    then show ?thesis by simp
  next
    case False
    then have bl: "bitlen \<bar>m\<bar> = 53 + int sh"
      by (simp add: sh_def)
    then have "0 < \<bar>m\<bar>"
      using bitlen_eq_zero_iff [of "\<bar>m\<bar>"] by linarith
    from bitlen_bounds [OF this] have "2 ^ nat (bitlen \<bar>m\<bar> - 1) \<le> \<bar>m\<bar>" by simp
    moreover have "nat (bitlen \<bar>m\<bar> - 1) = 52 + sh"
      using bl by simp
    ultimately have low: "2 ^ (52 + sh) \<le> \<bar>m\<bar>" by simp
    obtain k where k: "sh = Suc k"
      using False by (cases sh) auto
    have "\<bar>rne m sh * 2 ^ sh - m\<bar> * 2 \<le> 2 * 2 ^ k"
      using rne_error [of m sh] by (simp add: k)
    then have "\<bar>rne m sh * 2 ^ sh - m\<bar> \<le> 2 ^ k" by simp
    then have "\<bar>rne m sh * 2 ^ sh - m\<bar> * 2 ^ 53 \<le> 2 ^ k * 2 ^ 53"
      by (rule mult_right_mono) simp
    also have "(2::int) ^ k * 2 ^ 53 = 2 ^ (52 + sh)"
      by (simp add: k power_add)
    finally show ?thesis using low by linarith
  qed
  then have "real_of_int (\<bar>rne m sh * 2 ^ sh - m\<bar> * 2 ^ 53) \<le> real_of_int \<bar>m\<bar>"
    by (rule of_int_le_iff [THEN iffD2])
  then have "\<bar>real_of_int (rne m sh * 2 ^ sh - m)\<bar> \<le> \<bar>real_of_int m\<bar> / 2 ^ 53"
    by (simp add: field_simps)
  then have "\<bar>real_of_int (rne m sh * 2 ^ sh - m)\<bar> * 2 powi e \<le> \<bar>real_of_int m\<bar> / 2 ^ 53 * 2 powi e"
    by (rule mult_right_mono) simp
  then show ?thesis
    unfolding diff by (simp add: abs_mult)
qed


lemma real_trunc_of_int [simp]: "real_trunc (of_int z) = z"
  by (simp add: real_trunc_def)

lemma real_trunc_abs_le: "\<bar>real_of_int (real_trunc x)\<bar> \<le> \<bar>x\<bar>"
  by (simp add: real_trunc_def; linarith)

lemma real_trunc_close: "\<bar>x - real_of_int (real_trunc x)\<bar> < 1"
  by (simp add: real_trunc_def; linarith)

lemma float_trunc_real: "float_trunc x = real_trunc (float_val x)"
proof (cases x)
  case (PyFloat m e)
  show ?thesis
  proof (cases "0 \<le> e")
    case True
    then have "float_val x = of_int (m * 2 ^ nat e)"
      by (simp add: PyFloat float_val_PyFloat power_int_def)
    then show ?thesis
      using True by (simp add: PyFloat float_trunc_def del: of_int_mult of_int_power)
  next
    case False
    define k where "k = nat (- e)"
    have e: "e = - int k" using False by (simp add: k_def)
    have v: "float_val x = of_int m / of_int (2 ^ k)"
      by (simp add: PyFloat float_val_PyFloat e power_int_minus field_simps)
    have t: "float_trunc x = sgn m * (\<bar>m\<bar> div 2 ^ k)"
      using False by (simp add: PyFloat float_trunc_def k_def)
    show ?thesis
    proof (cases "0 \<le> m")
      case True
      then have "real_trunc (float_val x) = \<lfloor>real_of_int m / of_int (2 ^ k)\<rfloor>"
        by (simp add: real_trunc_def v)
      also have "\<dots> = m div 2 ^ k"
        by (rule floor_divide_of_int_eq)
      finally show ?thesis
        using True by (cases "m = 0") (simp_all add: t)
    next
      case False
      then have neg: "m < 0" by simp
      then have "float_val x < 0"
        by (simp add: v divide_neg_pos)
      then have "real_trunc (float_val x) = \<lceil>real_of_int m / of_int (2 ^ k)\<rceil>"
        by (simp add: real_trunc_def v)
      also have "\<dots> = - (- m div 2 ^ k)"
        by (rule ceiling_divide_eq_div)
      finally show ?thesis
        using neg by (simp add: t)
    qed
  qed
qed

lemma not_is_inf: "\<bar>float_val x\<bar> < 2 ^ 1024 \<Longrightarrow> \<not> is_inf x"
proof -
  assume a: "\<bar>float_val x\<bar> < 2 ^ 1024"
  have "real_of_int \<bar>float_trunc x\<bar> \<le> \<bar>float_val x\<bar>"
    using real_trunc_abs_le [of "float_val x"] by (simp add: float_trunc_real)
  with a have "real_of_int \<bar>float_trunc x\<bar> < real_of_int (2 ^ 1024)" by simp
  then have "\<bar>float_trunc x\<bar> < 2 ^ 1024"
    by (simp only: of_int_less_iff)
  then show ?thesis by (simp add: is_inf_def)
qed

lemma normalise_small: "\<bar>m\<bar> < 2 ^ 53 \<Longrightarrow> normalise m e = PyFloat m e"
proof -
  assume "\<bar>m\<bar> < 2 ^ 53"
  then have "bitlen \<bar>m\<bar> \<le> 53"
    by (simp add: bitlen_le_iff_power)
  then show ?thesis
    by (simp add: normalise_def)
qed

lemma float_of_int_small: "\<bar>n\<bar> < 2 ^ 53 \<Longrightarrow> float_of_int n = Inr (PyFloat n 0)"
proof -
  assume a: "\<bar>n\<bar> < 2 ^ 53"
  have "\<bar>float_val (PyFloat n 0)\<bar> < 2 ^ 1024"
  proof -
    have "real_of_int \<bar>n\<bar> < real_of_int (2 ^ 53)"
      using a by (simp only: of_int_less_iff)
    then show ?thesis by (simp add: float_val_PyFloat)
  qed
  then have "\<not> is_inf (PyFloat n 0)" by (rule not_is_inf)
  then show ?thesis
    by (simp add: float_of_int_def normalise_small [OF a])
qed

lemma float_val_fmul_error:
  "\<bar>float_val (fmul x y) - float_val x * float_val y\<bar> \<le> \<bar>float_val x * float_val y\<bar> / 2 ^ 53"
proof (cases x)
  case x: (PyFloat m1 e1)
  show ?thesis
  proof (cases y)
    case y: (PyFloat m2 e2)
    have "float_val x * float_val y = of_int (m1 * m2) * 2 powi (e1 + e2)"
      by (simp add: x y float_val_PyFloat power_int_add)
    moreover have "fmul x y = normalise (m1 * m2) (e1 + e2)"
      by (simp add: x y fmul_def)
    ultimately show ?thesis
      using normalise_rel_error [of "m1 * m2" "e1 + e2"] by simp
  qed
qed


lemma int_of_product_small:
  assumes n: "\<bar>n\<bar> < 2 ^ 53" and c: "\<bar>float_val c\<bar> \<le> 1"
  shows "int_of_product c n = Inr (real_trunc (float_val (fmul c (PyFloat n 0))))"
proof -
  let ?p = "float_val c * float_val (PyFloat n 0)"
  have nr: "\<bar>real_of_int n\<bar> < 2 ^ 53"
  proof -
    have "real_of_int \<bar>n\<bar> < real_of_int (2 ^ 53)"
      using n by (simp only: of_int_less_iff)
    then show ?thesis by simp
  qed
  have "\<bar>?p\<bar> = \<bar>float_val c\<bar> * \<bar>real_of_int n\<bar>"
    by (simp add: float_val_PyFloat abs_mult)
  also have "\<dots> \<le> 1 * \<bar>real_of_int n\<bar>"
    using c by (rule mult_right_mono) simp
  finally have p: "\<bar>?p\<bar> < 2 ^ 53"
    using nr by simp
  have "\<bar>float_val (fmul c (PyFloat n 0))\<bar> \<le> \<bar>?p\<bar> + \<bar>?p\<bar> / 2 ^ 53"
    using float_val_fmul_error [of c "PyFloat n 0"] by linarith
  also have "\<dots> < 2 ^ 1024"
    using p by simp
  finally have "\<not> is_inf (fmul c (PyFloat n 0))"
    by (rule not_is_inf)
  then show ?thesis
    by (simp add: int_of_product_def float_of_int_small [OF n] rbind_def py_int_def float_trunc_real)
qed

lemma real_trunc_stable:
  assumes far: "\<And>z::int. d \<le> \<bar>x - of_int z\<bar>" and near: "\<bar>y - x\<bar> < d"
  shows "real_trunc y = real_trunc x"
proof -
  define f where "f = \<lfloor>x\<rfloor>"
  have fx: "of_int f \<le> x" "x < of_int f + 1"
    unfolding f_def by linarith+
  have lo: "d \<le> x - of_int f"
    using far [of f] fx by simp
  have hi: "d \<le> of_int f + 1 - x"
    using far [of "f + 1"] fx by simp
  have y: "of_int f < y" "y < of_int f + 1"
    using near lo hi by linarith+
  have x: "of_int f < x"
    using near lo by linarith
  have fy: "\<lfloor>y\<rfloor> = f" using y by linarith
  have cy: "\<lceil>y\<rceil> = f + 1" using y by linarith
  have cx: "\<lceil>x\<rceil> = f + 1" using x fx by linarith
  show ?thesis
  proof (cases "0 \<le> x")
    case True
    then have "0 \<le> f" by (simp add: f_def)
    then have "0 \<le> y" using y by linarith
    with True show ?thesis by (simp add: real_trunc_def fy f_def)
  next
    case False
    then have "f + 1 \<le> 0" unfolding f_def by linarith
    then have "real_of_int (f + 1) \<le> 0" by (simp only: of_int_le_0_iff)
    then have "y < 0" using y by simp
    with False show ?thesis by (simp add: real_trunc_def cy cx)
  qed
qed

lemma circle_ratio_far_from_integers:
  assumes r: "r \<noteq> 0" "\<bar>r\<bar> < 5000000000"
  shows "1 / 5000000000 \<le> \<bar>5522847498 / 10 ^ 10 * real_of_int r - of_int z\<bar>"
proof -
  define a where "a = 2761423749 * r - 5000000000 * z"
  have "a \<noteq> 0"
  proof
    assume "a = 0"
    then have eq: "2761423749 * r = 5000000000 * z" by (simp add: a_def)
    have "r = 1971388749 * (2761423749 * r) - 1088767942 * 5000000000 * r" by simp
    also have "\<dots> = 1971388749 * (5000000000 * z) - 1088767942 * 5000000000 * r"
      by (simp only: eq)
    also have "\<dots> = 5000000000 * (1971388749 * z - 1088767942 * r)"
      by (simp add: algebra_simps)
    finally have "5000000000 dvd r" by (rule dvdI)
    then have "5000000000 \<le> \<bar>r\<bar>"
      using dvd_imp_le_int [of r 5000000000] r(1) by simp
    with r(2) show False by simp
  qed
  then have "1 \<le> \<bar>a\<bar>" by simp
  then have "1 \<le> \<bar>real_of_int a\<bar>"
    by (metis of_int_1_le_iff of_int_abs)
  moreover have "5522847498 / 10 ^ 10 * real_of_int r - of_int z = real_of_int a / 5000000000"
    by (simp add: a_def field_simps)
  ultimately show ?thesis by (simp add: field_simps)
qed

lemma float_val_K_CIRCLE: "float_val K_CIRCLE = 4974538786803375 / 2 ^ 53"
  by (simp add: K_CIRCLE_def float_val_PyFloat power_int_minus field_simps)

lemma K_CIRCLE_nearest:
  "\<bar>float_val K_CIRCLE - 5522847498 / 10 ^ 10\<bar> \<le> 1 / 2 ^ 54"
  by (simp add: float_val_K_CIRCLE)

lemma circle_offset_exact:
  assumes r: "\<bar>r\<bar> \<le> 2 ^ 19"
  shows "int_of_product K_CIRCLE r = Inr (real_trunc (5522847498 / 10 ^ 10 * real_of_int r))"
proof -
  let ?y = "float_val (fmul K_CIRCLE (PyFloat r 0))"
  let ?x = "5522847498 / 10 ^ 10 * real_of_int r"
  have r53: "\<bar>r\<bar> < 2 ^ 53" using r by simp
  have kc: "\<bar>float_val K_CIRCLE\<bar> \<le> 1" by (simp add: float_val_K_CIRCLE)
  have step: "int_of_product K_CIRCLE r = Inr (real_trunc ?y)"
    by (rule int_of_product_small [OF r53 kc])
  have rr: "\<bar>real_of_int r\<bar> \<le> 2 ^ 19"
  proof -
    have "real_of_int \<bar>r\<bar> \<le> real_of_int (2 ^ 19)"
      using r by (simp only: of_int_le_iff)
    then show ?thesis by simp
  qed
  let ?p = "float_val K_CIRCLE * real_of_int r"
  have e1: "\<bar>?y - ?p\<bar> \<le> \<bar>?p\<bar> / 2 ^ 53"
    using float_val_fmul_error [of K_CIRCLE "PyFloat r 0"] by (simp add: float_val_PyFloat)
  have "\<bar>?p\<bar> = \<bar>float_val K_CIRCLE\<bar> * \<bar>real_of_int r\<bar>" by (simp add: abs_mult)
  also have "\<dots> \<le> 1 * \<bar>real_of_int r\<bar>" using kc by (rule mult_right_mono) simp
  finally have p: "\<bar>?p\<bar> \<le> 2 ^ 19" using rr by simp
  have "\<bar>?p - ?x\<bar> = \<bar>float_val K_CIRCLE - 5522847498 / 10 ^ 10\<bar> * \<bar>real_of_int r\<bar>"
    by (simp add: abs_mult [symmetric] algebra_simps)
  also have "\<dots> \<le> 1 / 2 ^ 54 * \<bar>real_of_int r\<bar>"
    using K_CIRCLE_nearest by (rule mult_right_mono) simp
  finally have e2: "\<bar>?p - ?x\<bar> \<le> 2 ^ 19 / 2 ^ 54" using rr by simp
  have e1': "\<bar>?y - ?p\<bar> \<le> 2 ^ 19 / 2 ^ 53" using e1 p by simp
  have b1: "\<bar>?y - ?p\<bar> \<le> 1 / 17179869184" using e1' by simp
  have b2: "\<bar>?p - ?x\<bar> \<le> 1 / 34359738368" using e2 by simp
  have near: "\<bar>?y - ?x\<bar> < 1 / 5000000000"
    using b1 b2 by linarith
  show ?thesis
  proof (cases "r = 0")
    case True
    then show ?thesis using step e1 by simp
  next
    case False
    have "\<bar>r\<bar> < 5000000000" using r by simp
    from circle_ratio_far_from_integers [OF False this]
    have "real_trunc ?y = real_trunc ?x"
      using near by (intro real_trunc_stable [where d = "1 / 5000000000"]) simp_all
    with step show ?thesis by simp
  qed
qed

lemma real_trunc_ge:
  assumes "of_int z \<le> \<bar>x\<bar>" and "0 \<le> z"
  shows "z \<le> \<bar>real_trunc x\<bar>"
proof (cases "0 \<le> x")
  case True
  with assms have "z \<le> \<lfloor>x\<rfloor>" by (simp add: le_floor_iff)
  with True show ?thesis by (simp add: real_trunc_def)
next
  case False
  with assms have "x \<le> of_int (- z)" by simp
  then have "\<lceil>x\<rceil> \<le> - z" by (simp only: ceiling_le_iff)
  with False assms(2) show ?thesis by (simp add: real_trunc_def)
qed

lemma float_of_int_overflow:
  assumes "2 ^ 1025 \<le> \<bar>n\<bar>"
  shows "float_of_int n = Inl OverflowError"
proof -
  let ?x = "normalise n 0"
  have big: "(2::real) ^ 1025 \<le> \<bar>real_of_int n\<bar>"
  proof -
    have "real_of_int (2 ^ 1025) \<le> real_of_int \<bar>n\<bar>"
      using assms by (simp only: of_int_le_iff)
    then show ?thesis by simp
  qed
  have "\<bar>float_val ?x - of_int n\<bar> \<le> \<bar>real_of_int n\<bar> / 2 ^ 53"
    using normalise_rel_error [of n 0] by simp
  moreover have "\<bar>real_of_int n\<bar> / 2 ^ 53 \<le> \<bar>real_of_int n\<bar> / 2"
    by (rule divide_left_mono) simp_all
  ultimately have "\<bar>real_of_int n\<bar> / 2 \<le> \<bar>float_val ?x\<bar>"
    by linarith
  moreover have "(2::real) ^ 1024 \<le> \<bar>real_of_int n\<bar> / 2"
    using big by simp
  ultimately have "real_of_int (2 ^ 1024) \<le> \<bar>float_val ?x\<bar>"
    by simp
  then have "2 ^ 1024 \<le> \<bar>real_trunc (float_val ?x)\<bar>"
    by (rule real_trunc_ge) simp
  then have "is_inf ?x"
    by (simp only: is_inf_def float_trunc_real)
  then show ?thesis
    by (simp add: float_of_int_def)
qed

lemma circle_raises:
  assumes "float_of_int r = Inl e"
  shows "circle pen cx cy r = Inl e"
  by (simp add: circle_def int_of_product_def rbind_def assms)

lemma bitlen_numeral_simps:
  "bitlen (numeral (Num.Bit0 n)) = bitlen (numeral n) + 1"
  "bitlen (numeral (Num.Bit1 n)) = bitlen (numeral n) + 1"
  "bitlen 1 = 1"
proof -
  have a: "numeral (Num.Bit0 n) div (2::int) = numeral n" by simp
  have b: "numeral (Num.Bit1 n) div (2::int) = numeral n" by simp
  show "bitlen (numeral (Num.Bit0 n)) = bitlen (numeral n) + 1"
    by (subst compute_bitlen) (simp only: a zero_less_numeral if_True)
  show "bitlen (numeral (Num.Bit1 n)) = bitlen (numeral n) + 1"
    by (subst compute_bitlen) (simp only: b zero_less_numeral if_True)
  show "bitlen 1 = 1"
    by (subst compute_bitlen) simp
qed

lemma offset_at_large_radius:
  "int_of_product K_CIRCLE 100000000000000003 = Inr 55228474980000000"
  by (simp add: int_of_product_def K_CIRCLE_def float_of_int_def normalise_def rne_def
        is_inf_def float_trunc_def rbind_def fmul_def py_int_def bitlen_numeral_simps)

lemma round_at_large_radius:
  "round (5522847498 / 10 ^ 10 * real_of_int 100000000000000003) = 55228474980000002"
  by (rule round_unique) simp_all

section \<open>The circle\<close>

lemma circle_commands:
  assumes "int_of_product K_CIRCLE r = Inr kr"
  shows "circle pen cx cy r =
     Inr (pen @ [MoveTo (cx, cy + r),
                 CurveTo (cx + kr, cy + r) (cx + r, cy + kr) (cx + r, cy),
                 CurveTo (cx + r, cy - kr) (cx + kr, cy - r) (cx, cy - r),
                 CurveTo (cx - kr, cy - r) (cx - r, cy - kr) (cx - r, cy),
                 CurveTo (cx - r, cy + kr) (cx - kr, cy + r) (cx, cy + r),
                 ClosePath])"
  by (simp add: circle_def assms rbind_def pen_defs Let_def)

lemma real_trunc_abs: "\<bar>real_trunc x\<bar> = real_trunc \<bar>x\<bar>"
  by (simp add: real_trunc_def ceiling_def; linarith)

lemma trunc_near_round:
  assumes "\<bar>y - x\<bar> \<le> 3 / 8"
  shows "\<bar>real_trunc y - round x\<bar> \<le> 1"
proof -
  have "\<bar>real_of_int (round x) - x\<bar> \<le> 1 / 2"
    by (rule of_int_round_abs_le)
  moreover have "\<bar>y - real_of_int (real_trunc y)\<bar> < 1"
    by (rule real_trunc_close)
  ultimately have "\<bar>real_of_int (real_trunc y) - real_of_int (round x)\<bar> < 2"
    using assms by linarith
  then have "real_of_int \<bar>real_trunc y - round x\<bar> < real_of_int 2"
    by simp
  then have "\<bar>real_trunc y - round x\<bar> < 2"
    by (simp only: of_int_less_iff)
  then show ?thesis by simp
qed

lemma circle_offset_close:
  assumes r: "\<bar>r\<bar> \<le> 2 ^ 51"
  shows "\<exists>kr. int_of_product K_CIRCLE r = Inr kr
           \<and> \<bar>kr - round (5522847498 / 10 ^ 10 * real_of_int r)\<bar> \<le> 1
           \<and> \<bar>\<bar>kr\<bar> - round (5522847498 / 10 ^ 10 * \<bar>real_of_int r\<bar>)\<bar> \<le> 1"
proof -
  let ?y = "float_val (fmul K_CIRCLE (PyFloat r 0))"
  let ?x = "5522847498 / 10 ^ 10 * real_of_int r"
  let ?p = "float_val K_CIRCLE * real_of_int r"
  have r53: "\<bar>r\<bar> < 2 ^ 53" using r by simp
  have kc: "\<bar>float_val K_CIRCLE\<bar> \<le> 1" by (simp add: float_val_K_CIRCLE)
  have step: "int_of_product K_CIRCLE r = Inr (real_trunc ?y)"
    by (rule int_of_product_small [OF r53 kc])
  have rr: "\<bar>real_of_int r\<bar> \<le> 2 ^ 51"
  proof -
    have "real_of_int \<bar>r\<bar> \<le> real_of_int (2 ^ 51)"
      using r by (simp only: of_int_le_iff)
    then show ?thesis by simp
  qed
  have e1: "\<bar>?y - ?p\<bar> \<le> \<bar>?p\<bar> / 2 ^ 53"
    using float_val_fmul_error [of K_CIRCLE "PyFloat r 0"] by (simp add: float_val_PyFloat)
  have "\<bar>?p\<bar> = \<bar>float_val K_CIRCLE\<bar> * \<bar>real_of_int r\<bar>" by (simp add: abs_mult)
  also have "\<dots> \<le> 1 * \<bar>real_of_int r\<bar>" using kc by (rule mult_right_mono) simp
  finally have p: "\<bar>?p\<bar> \<le> 2 ^ 51" using rr by simp
  have "\<bar>?p - ?x\<bar> = \<bar>float_val K_CIRCLE - 5522847498 / 10 ^ 10\<bar> * \<bar>real_of_int r\<bar>"
    by (simp add: abs_mult [symmetric] algebra_simps)
  also have "\<dots> \<le> 1 / 2 ^ 54 * \<bar>real_of_int r\<bar>"
    using K_CIRCLE_nearest by (rule mult_right_mono) simp
  finally have e2: "\<bar>?p - ?x\<bar> \<le> 2 ^ 51 / 2 ^ 54" using rr by simp
  have e1': "\<bar>?y - ?p\<bar> \<le> 2 ^ 51 / 2 ^ 53" using e1 p by simp
  have b1: "\<bar>?y - ?p\<bar> \<le> 1 / 4" using e1' by simp
  have b2: "\<bar>?p - ?x\<bar> \<le> 1 / 8" using e2 by simp
  have near: "\<bar>?y - ?x\<bar> \<le> 3 / 8"
    using b1 b2 by linarith
  have t1: "\<bar>real_trunc ?y - round ?x\<bar> \<le> 1"
    using near by (rule trunc_near_round)
  have ax: "5522847498 / 10 ^ 10 * \<bar>real_of_int r\<bar> = \<bar>?x\<bar>"
    by (simp add: abs_mult)
  have "\<bar>\<bar>?y\<bar> - \<bar>?x\<bar>\<bar> \<le> 3 / 8"
    using near by linarith
  then have "\<bar>real_trunc \<bar>?y\<bar> - round \<bar>?x\<bar>\<bar> \<le> 1"
    by (rule trunc_near_round)
  then have t2: "\<bar>\<bar>real_trunc ?y\<bar> - round (5522847498 / 10 ^ 10 * \<bar>real_of_int r\<bar>)\<bar> \<le> 1"
    by (simp only: ax real_trunc_abs)
  from step t1 t2 show ?thesis by blast
qed

text \<open>
  Claim C4 is stated for every radius. It fails for large radii: a radius of
  \<open>2 ^ 1025\<close> cannot be converted to a float, so \<^verbatim>\<open>k * r\<close> raises
  \<^verbatim>\<open>OverflowError\<close> before anything is drawn; and at the radius
  \<open>10 ^ 17 + 3\<close> the float product is so coarse that the offset differs by 2
  from the rounded exact product.
\<close>

theorem circle_large_radius:
  "circle [] 0 0 (2 ^ 1025) = Inl OverflowError
   \<and> circle [] 0 0 100000000000000003 =
       Inr [MoveTo (0, 100000000000000003),
            CurveTo (55228474980000000, 100000000000000003)
                    (100000000000000003, 55228474980000000) (100000000000000003, 0),
            CurveTo (100000000000000003, - 55228474980000000)
                    (55228474980000000, - 100000000000000003) (0, - 100000000000000003),
            CurveTo (- 55228474980000000, - 100000000000000003)
                    (- 100000000000000003, - 55228474980000000) (- 100000000000000003, 0),
            CurveTo (- 100000000000000003, 55228474980000000)
                    (- 55228474980000000, 100000000000000003) (0, 100000000000000003),
            ClosePath]
   \<and> round (5522847498 / 10 ^ 10 * real_of_int 100000000000000003) = 55228474980000002"
proof -
  have "(2::int) ^ 1025 \<le> \<bar>2 ^ 1025\<bar>" by simp
  then have "float_of_int (2 ^ 1025) = Inl OverflowError"
    by (rule float_of_int_overflow)
  then have raised: "circle [] 0 0 (2 ^ 1025) = Inl OverflowError"
    by (rule circle_raises)
  show ?thesis
    using raised circle_commands [OF offset_at_large_radius, of "[]" 0 0] round_at_large_radius
    by simp
qed

text \<open>
  Claim C4, as amended: for every centre \<open>(cx, cy)\<close> and every radius \<open>r\<close> of
  magnitude at most \<open>2 ^ 51\<close>, the circle adds exactly one closed subpath of four
  cubic segments to the pen; its control offset \<open>kr\<close> is within 1 of
  \<open>round (0.5522847498 * r)\<close>, also in magnitude; the fourth segment ends at the
  start point \<open>(cx, cy + r)\<close>. For magnitudes up to \<open>2 ^ 19\<close> the offset is
  \<open>0.5522847498 * r\<close> truncated toward zero.
\<close>

theorem circle_bezier:
  assumes "\<bar>r\<bar> \<le> 2 ^ 51"
  shows "\<exists>kr. circle pen cx cy r =
           Inr (pen @ [MoveTo (cx, cy + r),
                       CurveTo (cx + kr, cy + r) (cx + r, cy + kr) (cx + r, cy),
                       CurveTo (cx + r, cy - kr) (cx + kr, cy - r) (cx, cy - r),
                       CurveTo (cx - kr, cy - r) (cx - r, cy - kr) (cx - r, cy),
                       CurveTo (cx - r, cy + kr) (cx - kr, cy + r) (cx, cy + r),
                       ClosePath])
         \<and> \<bar>kr - round (5522847498 / 10 ^ 10 * real_of_int r)\<bar> \<le> 1
         \<and> \<bar>\<bar>kr\<bar> - round (5522847498 / 10 ^ 10 * \<bar>real_of_int r\<bar>)\<bar> \<le> 1
         \<and> (\<bar>r\<bar> \<le> 2 ^ 19 \<longrightarrow> kr = real_trunc (5522847498 / 10 ^ 10 * real_of_int r))"
proof -
  from circle_offset_close [OF assms] obtain kr where
    kr: "int_of_product K_CIRCLE r = Inr kr"
    and t1: "\<bar>kr - round (5522847498 / 10 ^ 10 * real_of_int r)\<bar> \<le> 1"
    and t2: "\<bar>\<bar>kr\<bar> - round (5522847498 / 10 ^ 10 * \<bar>real_of_int r\<bar>)\<bar> \<le> 1"
    by blast
  have exact: "\<bar>r\<bar> \<le> 2 ^ 19 \<longrightarrow> kr = real_trunc (5522847498 / 10 ^ 10 * real_of_int r)"
  proof
    assume "\<bar>r\<bar> \<le> 2 ^ 19"
    from circle_offset_exact [OF this] kr
    show "kr = real_trunc (5522847498 / 10 ^ 10 * real_of_int r)" by simp
  qed
  from circle_commands [OF kr, of pen cx cy] t1 t2 exact show ?thesis
    by (intro exI [of _ kr] conjI)
qed

theorem circle_bezier_witness:
  "\<bar>200 :: int\<bar> \<le> 2 ^ 51
   \<and> circle [] 300 300 200 =
       Inr [MoveTo (300, 500),
            CurveTo (410, 500) (500, 410) (500, 300),
            CurveTo (500, 190) (410, 100) (300, 100),
            CurveTo (190, 100) (100, 190) (100, 300),
            CurveTo (100, 410) (190, 500) (300, 500),
            ClosePath]"
proof -
  have h: "\<bar>200 :: int\<bar> \<le> 2 ^ 51" by simp
  from circle_bezier [OF h, of "[]" 300 300] obtain kr where
    c: "circle [] 300 300 200 =
           Inr ([] @ [MoveTo (300, 300 + 200),
                       CurveTo (300 + kr, 300 + 200) (300 + 200, 300 + kr) (300 + 200, 300),
                       CurveTo (300 + 200, 300 - kr) (300 + kr, 300 - 200) (300, 300 - 200),
                       CurveTo (300 - kr, 300 - 200) (300 - 200, 300 - kr) (300 - 200, 300),
                       CurveTo (300 - 200, 300 + kr) (300 - kr, 300 + 200) (300, 300 + 200),
                       ClosePath])"
    and e: "\<bar>200 :: int\<bar> \<le> 2 ^ 19 \<longrightarrow> kr = real_trunc (5522847498 / 10 ^ 10 * real_of_int 200)"
    by blast
  from e have "kr = 110" by (simp add: real_trunc_def)
  with c h show ?thesis by simp
qed

section \<open>Closed and open subpaths\<close>

lemmas subpath_defs = all_closed_def all_open_def subpaths_def subpath_ending_def is_segment_def

lemma triangle_down_commands:
  "triangle_down pen cx cy sz =
     pen @ [MoveTo (cx, cy - sz div 2), LineTo (cx + sz div 2, cy + sz div 2),
            LineTo (cx - sz div 2, cy + sz div 2), ClosePath]"
  by (simp add: triangle_down_def pen_defs Let_def)

lemma diamond_commands:
  "diamond pen cx cy sz =
     pen @ [MoveTo (cx, cy + sz div 2), LineTo (cx + sz div 2, cy),
            LineTo (cx, cy - sz div 2), LineTo (cx - sz div 2, cy), ClosePath]"
  by (simp add: diamond_def pen_defs Let_def)

lemma cross_commands:
  "cross pen cx cy sz =
     pen @ [MoveTo (cx - sz div 2, cy - sz div 6), LineTo (cx - sz div 2 + sz, cy - sz div 6),
            LineTo (cx - sz div 2 + sz, cy - sz div 6 + 2 * (sz div 6)),
            LineTo (cx - sz div 2, cy - sz div 6 + 2 * (sz div 6)), ClosePath,
            MoveTo (cx - sz div 6, cy - sz div 2),
            LineTo (cx - sz div 6 + 2 * (sz div 6), cy - sz div 2),
            LineTo (cx - sz div 6 + 2 * (sz div 6), cy - sz div 2 + sz),
            LineTo (cx - sz div 6, cy - sz div 2 + sz), ClosePath]"
  by (simp add: cross_def box_rect_commands Let_def)

lemma wave_commands:
  "wave pen cx cy sz =
     pen @ [MoveTo (cx - sz div 2, cy),
            CurveTo (cx - sz div 4, cy + sz div 4) (cx, cy + sz div 4) (cx, cy),
            CurveTo (cx, cy - sz div 4) (cx + sz div 4, cy - sz div 4) (cx + sz div 2, cy),
            EndPath]"
  by (simp add: wave_def pen_defs Let_def)

lemma arc_left_commands:
  assumes "int_of_product K_ARC (sz div 2) = Inr k"
  shows "arc_left pen cx cy sz =
     Inr (pen @ [MoveTo (cx + sz div 2, cy + sz div 2),
                 CurveTo (cx + sz div 2 - k, cy + sz div 2) (cx, cy + k) (cx, cy),
                 CurveTo (cx, cy - k) (cx + sz div 2 - k, cy - sz div 2) (cx + sz div 2, cy - sz div 2),
                 EndPath])"
  by (simp add: arc_left_def assms rbind_def pen_defs Let_def)

lemma arc_right_commands:
  assumes "int_of_product K_ARC (sz div 2) = Inr k"
  shows "arc_right pen cx cy sz =
     Inr (pen @ [MoveTo (cx - sz div 2, cy + sz div 2),
                 CurveTo (cx - sz div 2 + k, cy + sz div 2) (cx, cy + k) (cx, cy),
                 CurveTo (cx, cy - k) (cx - sz div 2 + k, cy - sz div 2) (cx - sz div 2, cy - sz div 2),
                 EndPath])"
  by (simp add: arc_right_def assms rbind_def pen_defs Let_def)

lemma arc_left_returned:
  assumes "arc_left pen cx cy sz = Inr pen'"
  shows "\<exists>k. int_of_product K_ARC (sz div 2) = Inr k"
  using assms by (cases "int_of_product K_ARC (sz div 2)") (simp_all add: arc_left_def rbind_def)

lemma arc_right_returned:
  assumes "arc_right pen cx cy sz = Inr pen'"
  shows "\<exists>k. int_of_product K_ARC (sz div 2) = Inr k"
  using assms by (cases "int_of_product K_ARC (sz div 2)") (simp_all add: arc_right_def rbind_def)

lemma fold_lineTo: "fold (\<lambda>p pen. lineTo pen p) ps pen = pen @ map LineTo ps"
  by (induction ps arbitrary: pen) (simp_all add: lineTo_def)

lemma star_points_length:
  "star_points L cx cy outer_r inner_r ns = Inr ps \<Longrightarrow> length ps = length ns"
proof (induction ns arbitrary: ps)
  case Nil
  then show ?case by simp
next
  case (Cons i ns)
  then show ?case
    by (auto simp add: rbind_def Let_def split: sum.splits)
qed

lemma star_5_commands:
  assumes "star_5 L pen cx cy outer_r inner_r = Inr pen'"
  shows "\<exists>p0 rest. star_points L cx cy outer_r inner_r [0..<10] = Inr (p0 # rest)
           \<and> length rest = 9
           \<and> pen' = pen @ MoveTo p0 # map LineTo rest @ [ClosePath]"
proof (cases "star_points L cx cy outer_r inner_r [0..<10]")
  case (Inl e)
  with assms show ?thesis by (simp add: star_5_def rbind_def)
next
  case (Inr points)
  from star_points_length [OF Inr] have len: "length points = 10" by simp
  then obtain p0 rest where points: "points = p0 # rest"
    by (cases points) auto
  with len have "length rest = 9" by simp
  moreover have "pen' = pen @ MoveTo p0 # map LineTo rest @ [ClosePath]"
    using assms by (simp add: star_5_def rbind_def Inr points Let_def fold_lineTo moveTo_def closePath_def)
  ultimately show ?thesis by (simp add: Inr points)
qed

lemma subpaths_from_lines:
  "subpaths_from cur (map LineTo ps @ [ClosePath]) = [cur @ map LineTo ps @ [ClosePath]]"
  by (induction ps arbitrary: cur) simp_all

lemma polygon_closed: "all_closed (MoveTo p # map LineTo ps @ [ClosePath])"
proof -
  have "subpaths (MoveTo p # map LineTo ps @ [ClosePath]) = [MoveTo p # map LineTo ps @ [ClosePath]]"
    using subpaths_from_lines [of "[MoveTo p]" ps] by (simp add: subpaths_def)
  moreover have "list_all is_segment (map LineTo ps)"
    by (induction ps) (simp_all add: is_segment_def)
  ultimately show ?thesis
    by (simp add: all_closed_def subpath_ending_def butlast_append)
qed


lemma float_val_K_ARC: "float_val K_ARC = 4953959590107546 / 2 ^ 53"
  by (simp add: K_ARC_def float_val_PyFloat power_int_minus field_simps)

lemma K_ARC_nearest: "\<bar>float_val K_ARC - 55 / 100\<bar> \<le> 1 / 2 ^ 54"
  by (simp add: float_val_K_ARC)

lemma abs_half_le: "\<bar>(a::int) div 2\<bar> \<le> \<bar>a\<bar>"
  by arith

lemma arc_offset_total:
  assumes "\<bar>sz\<bar> < 2 ^ 53"
  shows "\<exists>k. int_of_product K_ARC (sz div 2) = Inr k"
proof -
  have "\<bar>sz div 2\<bar> < 2 ^ 53"
    using assms abs_half_le [of sz] by linarith
  moreover have "\<bar>float_val K_ARC\<bar> \<le> 1"
    by (simp add: float_val_K_ARC)
  ultimately show ?thesis
    using int_of_product_small by blast
qed

lemma libm_boundedD:
  assumes "libm_bounded L"
  shows "\<bar>float_val (math_cos L a)\<bar> \<le> 1" and "\<bar>float_val (math_sin L a)\<bar> \<le> 1"
  using assms by (simp_all add: libm_bounded_def)

lemma star_points_total:
  assumes L: "libm_bounded L" and o: "\<bar>outer_r\<bar> < 2 ^ 53" and i: "\<bar>inner_r\<bar> < 2 ^ 53"
  shows "\<exists>ps. star_points L cx cy outer_r inner_r ns = Inr ps"
proof (induction ns)
  case Nil
  show ?case by simp
next
  case (Cons n ns)
  then obtain ps where ps: "star_points L cx cy outer_r inner_r ns = Inr ps" by blast
  define r where "r = (if n mod 2 = 0 then outer_r else inner_r)"
  have r: "\<bar>r\<bar> < 2 ^ 53" using o i by (simp add: r_def)
  have c: "int_of_product (math_cos L (StarAngle n)) r
             = Inr (real_trunc (float_val (fmul (math_cos L (StarAngle n)) (PyFloat r 0))))"
    by (rule int_of_product_small [OF r libm_boundedD(1) [OF L]])
  have s: "int_of_product (math_sin L (StarAngle n)) r
             = Inr (real_trunc (float_val (fmul (math_sin L (StarAngle n)) (PyFloat r 0))))"
    by (rule int_of_product_small [OF r libm_boundedD(2) [OF L]])
  show ?case
    using c s ps by (simp add: rbind_def Let_def r_def)
qed

lemma star_5_total:
  assumes L: "libm_bounded L" and o: "\<bar>outer_r\<bar> < 2 ^ 53" and i: "\<bar>inner_r\<bar> < 2 ^ 53"
  shows "\<exists>pen'. star_5 L pen cx cy outer_r inner_r = Inr pen'"
proof -
  obtain ps where ps: "star_points L cx cy outer_r inner_r [0..<10] = Inr ps"
    using star_points_total [OF assms] by blast
  from star_points_length [OF ps] have "length ps = 10" by simp
  then obtain p0 rest where "ps = p0 # rest" by (cases ps) auto
  then show ?thesis
    by (simp add: star_5_def ps rbind_def Let_def)
qed

lemma libm_example_bounded: "libm_bounded libm_example"
  by (simp add: libm_bounded_def libm_example_def float_val_PyFloat)

text \<open>
  Claim C9. For every centre and size, whatever the filled primitives (upward and
  downward triangle, diamond, rectangle, cross, five-pointed star) add to the pen
  is a sequence of subpaths each ended by \<open>ClosePath\<close>, and whatever the stroke
  primitives (left arc, right arc, wave) add is a sequence of subpaths each ended
  by \<open>EndPath\<close>. The star and the arcs go through floats: when they return they
  have drawn such subpaths, and they do return for sizes below \<open>2 ^ 53\<close> (the star
  with a libm whose values lie in \<open>[-1, 1]\<close>).
\<close>

theorem filled_closed_strokes_open:
  "(\<exists>es. triangle_up pen cx cy sz = pen @ es \<and> all_closed es)
   \<and> (\<exists>es. triangle_down pen cx cy sz = pen @ es \<and> all_closed es)
   \<and> (\<exists>es. diamond pen cx cy sz = pen @ es \<and> all_closed es)
   \<and> (\<exists>es. box_rect pen x y w h = pen @ es \<and> all_closed es)
   \<and> (\<exists>es. cross pen cx cy sz = pen @ es \<and> all_closed es)
   \<and> (\<forall>pen'. star_5 L pen cx cy outer_r inner_r = Inr pen'
         \<longrightarrow> (\<exists>es. pen' = pen @ es \<and> all_closed es))
   \<and> (libm_bounded L \<and> \<bar>outer_r\<bar> < 2 ^ 53 \<and> \<bar>inner_r\<bar> < 2 ^ 53
         \<longrightarrow> (\<exists>pen'. star_5 L pen cx cy outer_r inner_r = Inr pen'))
   \<and> (\<exists>es. wave pen cx cy sz = pen @ es \<and> all_open es)
   \<and> (\<forall>pen'. arc_left pen cx cy sz = Inr pen' \<longrightarrow> (\<exists>es. pen' = pen @ es \<and> all_open es))
   \<and> (\<forall>pen'. arc_right pen cx cy sz = Inr pen' \<longrightarrow> (\<exists>es. pen' = pen @ es \<and> all_open es))
   \<and> (\<bar>sz\<bar> < 2 ^ 53
         \<longrightarrow> (\<exists>pen'. arc_left pen cx cy sz = Inr pen') \<and> (\<exists>pen'. arc_right pen cx cy sz = Inr pen'))"
proof -
  have tu: "\<exists>es. triangle_up pen cx cy sz = pen @ es \<and> all_closed es"
    by (simp add: triangle_up_commands subpath_defs)
  have td: "\<exists>es. triangle_down pen cx cy sz = pen @ es \<and> all_closed es"
    by (simp add: triangle_down_commands subpath_defs)
  have di: "\<exists>es. diamond pen cx cy sz = pen @ es \<and> all_closed es"
    by (simp add: diamond_commands subpath_defs)
  have bx: "\<exists>es. box_rect pen x y w h = pen @ es \<and> all_closed es"
    by (simp add: box_rect_commands subpath_defs)
  have cr: "\<exists>es. cross pen cx cy sz = pen @ es \<and> all_closed es"
    by (simp add: cross_commands subpath_defs)
  have st: "\<forall>pen'. star_5 L pen cx cy outer_r inner_r = Inr pen'
              \<longrightarrow> (\<exists>es. pen' = pen @ es \<and> all_closed es)"
  proof (intro allI impI)
    fix pen'
    assume "star_5 L pen cx cy outer_r inner_r = Inr pen'"
    from star_5_commands [OF this] obtain p0 rest
      where "pen' = pen @ MoveTo p0 # map LineTo rest @ [ClosePath]" by blast
    then show "\<exists>es. pen' = pen @ es \<and> all_closed es"
      using polygon_closed [of p0 rest] by blast
  qed
  have st_total: "libm_bounded L \<and> \<bar>outer_r\<bar> < 2 ^ 53 \<and> \<bar>inner_r\<bar> < 2 ^ 53
         \<longrightarrow> (\<exists>pen'. star_5 L pen cx cy outer_r inner_r = Inr pen')"
    using star_5_total by blast
  have wv: "\<exists>es. wave pen cx cy sz = pen @ es \<and> all_open es"
    by (simp add: wave_commands subpath_defs)
  have al: "\<forall>pen'. arc_left pen cx cy sz = Inr pen' \<longrightarrow> (\<exists>es. pen' = pen @ es \<and> all_open es)"
  proof (intro allI impI)
    fix pen'
    assume a: "arc_left pen cx cy sz = Inr pen'"
    from arc_left_returned [OF a] obtain k where "int_of_product K_ARC (sz div 2) = Inr k" ..
    from arc_left_commands [OF this, of pen cx cy] a
    show "\<exists>es. pen' = pen @ es \<and> all_open es"
      by (simp add: subpath_defs)
  qed
  have ar: "\<forall>pen'. arc_right pen cx cy sz = Inr pen' \<longrightarrow> (\<exists>es. pen' = pen @ es \<and> all_open es)"
  proof (intro allI impI)
    fix pen'
    assume a: "arc_right pen cx cy sz = Inr pen'"
    from arc_right_returned [OF a] obtain k where "int_of_product K_ARC (sz div 2) = Inr k" ..
    from arc_right_commands [OF this, of pen cx cy] a
    show "\<exists>es. pen' = pen @ es \<and> all_open es"
      by (simp add: subpath_defs)
  qed
  have arcs_total: "\<bar>sz\<bar> < 2 ^ 53
         \<longrightarrow> (\<exists>pen'. arc_left pen cx cy sz = Inr pen') \<and> (\<exists>pen'. arc_right pen cx cy sz = Inr pen')"
  proof
    assume "\<bar>sz\<bar> < 2 ^ 53"
    from arc_offset_total [OF this] obtain k where k: "int_of_product K_ARC (sz div 2) = Inr k" ..
    show "(\<exists>pen'. arc_left pen cx cy sz = Inr pen') \<and> (\<exists>pen'. arc_right pen cx cy sz = Inr pen')"
      using arc_left_commands [OF k, of pen cx cy] arc_right_commands [OF k, of pen cx cy]
      by simp
  qed
  from tu td di bx cr st st_total wv al ar arcs_total show ?thesis
    by (intro conjI)
qed

theorem filled_closed_strokes_open_witness:
  "libm_bounded libm_example
   \<and> (\<exists>pen' es. star_5 libm_example [] 300 300 200 100 = Inr pen' \<and> pen' = [] @ es \<and> all_closed es)
   \<and> (\<exists>pen' es. arc_left [] 300 300 400 = Inr pen' \<and> pen' = [] @ es \<and> all_open es)
   \<and> (\<exists>pen' es. arc_right [] 300 300 400 = Inr pen' \<and> pen' = [] @ es \<and> all_open es)"
proof -
  note T = filled_closed_strokes_open [where pen = "[]" and cx = 300 and cy = 300 and sz = 400
      and L = libm_example and outer_r = 200 and inner_r = 100
      and x = 0 and y = 0 and w = 0 and h = 0]
  from T have st: "\<forall>pen'. star_5 libm_example [] 300 300 200 100 = Inr pen'
              \<longrightarrow> (\<exists>es. pen' = [] @ es \<and> all_closed es)"
    by (elim conjE)
  from T have st_total: "libm_bounded libm_example \<and> \<bar>200::int\<bar> < 2 ^ 53 \<and> \<bar>100::int\<bar> < 2 ^ 53
         \<longrightarrow> (\<exists>pen'. star_5 libm_example [] 300 300 200 100 = Inr pen')"
    by (elim conjE)
  from T have al: "\<forall>pen'. arc_left [] 300 300 400 = Inr pen' \<longrightarrow> (\<exists>es. pen' = [] @ es \<and> all_open es)"
    by (elim conjE)
  from T have ar: "\<forall>pen'. arc_right [] 300 300 400 = Inr pen' \<longrightarrow> (\<exists>es. pen' = [] @ es \<and> all_open es)"
    by (elim conjE)
  from T have arcs_total: "\<bar>400::int\<bar> < 2 ^ 53
         \<longrightarrow> (\<exists>pen'. arc_left [] 300 300 400 = Inr pen') \<and> (\<exists>pen'. arc_right [] 300 300 400 = Inr pen')"
    by (elim conjE)
  have "\<exists>pen'. star_5 libm_example [] 300 300 200 100 = Inr pen'"
    using st_total libm_example_bounded by simp
  with st have a: "\<exists>pen' es. star_5 libm_example [] 300 300 200 100 = Inr pen' \<and> pen' = [] @ es \<and> all_closed es"
    by blast
  have "(\<exists>pen'. arc_left [] 300 300 400 = Inr pen') \<and> (\<exists>pen'. arc_right [] 300 300 400 = Inr pen')"
    using arcs_total by simp
  with al ar have b: "\<exists>pen' es. arc_left [] 300 300 400 = Inr pen' \<and> pen' = [] @ es \<and> all_open es"
    and c: "\<exists>pen' es. arc_right [] 300 300 400 = Inr pen' \<and> pen' = [] @ es \<and> all_open es"
    by blast+
  from libm_example_bounded a b c show ?thesis by (intro conjI)
qed

section \<open>How float coordinates are made integers\<close>

lemma int_of_product_returned:
  assumes "int_of_product c n = Inr t"
  shows "\<exists>x. float_of_int n = Inr x \<and> t = real_trunc (float_val (fmul c x))"
proof (cases "float_of_int n")
  case (Inl e)
  with assms show ?thesis by (simp add: int_of_product_def rbind_def)
next
  case (Inr x)
  with assms have "py_int (fmul c x) = Inr t"
    by (simp add: int_of_product_def rbind_def)
  then have "t = float_trunc (fmul c x)"
    by (simp add: py_int_def split: if_splits)
  with Inr show ?thesis by (simp add: float_trunc_real)
qed

lemma star_points_truncated:
  assumes "star_points L cx cy outer_r inner_r ns = Inr ps"
  shows "\<forall>j<length ns. \<exists>x.
           float_of_int (if ns ! j mod 2 = 0 then outer_r else inner_r) = Inr x
           \<and> ps ! j = (cx + real_trunc (float_val (fmul (math_cos L (StarAngle (ns ! j))) x)),
                       cy + real_trunc (float_val (fmul (math_sin L (StarAngle (ns ! j))) x)))"
  using assms
proof (induction ns arbitrary: ps)
  case Nil
  then show ?case by simp
next
  case (Cons n ns)
  define r where "r = (if n mod 2 = 0 then outer_r else inner_r)"
  from Cons.prems obtain dx dy qs where
    dx: "int_of_product (math_cos L (StarAngle n)) r = Inr dx" and
    dy: "int_of_product (math_sin L (StarAngle n)) r = Inr dy" and
    qs: "star_points L cx cy outer_r inner_r ns = Inr qs" and
    ps: "ps = (cx + dx, cy + dy) # qs"
    by (auto simp add: rbind_def Let_def r_def split: sum.splits)
  from int_of_product_returned [OF dx] obtain x where
    x: "float_of_int r = Inr x" "dx = real_trunc (float_val (fmul (math_cos L (StarAngle n)) x))"
    by blast
  from int_of_product_returned [OF dy] x(1) have
    y: "dy = real_trunc (float_val (fmul (math_sin L (StarAngle n)) x))"
    by simp
  note IH = Cons.IH [OF qs]
  show ?case
  proof (intro allI impI)
    fix j
    assume j: "j < length (n # ns)"
    show "\<exists>x. float_of_int (if (n # ns) ! j mod 2 = 0 then outer_r else inner_r) = Inr x
           \<and> ps ! j = (cx + real_trunc (float_val (fmul (math_cos L (StarAngle ((n # ns) ! j))) x)),
                       cy + real_trunc (float_val (fmul (math_sin L (StarAngle ((n # ns) ! j))) x)))"
    proof (cases j)
      case 0
      then show ?thesis using x y by (simp add: ps r_def)
    next
      case (Suc k)
      with j have "k < length ns" by simp
      with IH show ?thesis by (simp add: Suc ps)
    qed
  qed
qed

lemma star_5_truncated:
  assumes "star_5 L pen cx cy outer_r inner_r = Inr pen'"
  shows "\<exists>ps. length ps = 10
           \<and> pen' = pen @ MoveTo (ps ! 0) # map LineTo (tl ps) @ [ClosePath]
           \<and> (\<forall>j<10. \<exists>x.
                 float_of_int (if j mod 2 = 0 then outer_r else inner_r) = Inr x
                 \<and> ps ! j = (cx + real_trunc (float_val (fmul (math_cos L (StarAngle j)) x)),
                             cy + real_trunc (float_val (fmul (math_sin L (StarAngle j)) x))))"
proof -
  from star_5_commands [OF assms] obtain p0 rest where
    sp: "star_points L cx cy outer_r inner_r [0..<10] = Inr (p0 # rest)" and
    len: "length rest = 9" and
    pen': "pen' = pen @ MoveTo p0 # map LineTo rest @ [ClosePath]"
    by blast
  have "\<forall>j<10. \<exists>x.
           float_of_int (if j mod 2 = 0 then outer_r else inner_r) = Inr x
           \<and> (p0 # rest) ! j = (cx + real_trunc (float_val (fmul (math_cos L (StarAngle j)) x)),
                       cy + real_trunc (float_val (fmul (math_sin L (StarAngle j)) x)))"
  proof (intro allI impI)
    fix j :: nat
    assume j: "j < 10"
    then have "[0..<10] ! j = j" by simp
    with star_points_truncated [OF sp] j
    show "\<exists>x. float_of_int (if j mod 2 = 0 then outer_r else inner_r) = Inr x
           \<and> (p0 # rest) ! j = (cx + real_trunc (float_val (fmul (math_cos L (StarAngle j)) x)),
                       cy + real_trunc (float_val (fmul (math_sin L (StarAngle j)) x)))"
      by (metis length_upt minus_nat.diff_0)
  qed
  with len pen' show ?thesis
    by (intro exI [of _ "p0 # rest"]) simp
qed


lemma arc_left_truncated:
  assumes "arc_left pen cx cy sz = Inr pen'"
  shows "\<exists>x k. float_of_int (sz div 2) = Inr x \<and> k = real_trunc (float_val (fmul K_ARC x))
           \<and> pen' = pen @ [MoveTo (cx + sz div 2, cy + sz div 2),
                 CurveTo (cx + sz div 2 - k, cy + sz div 2) (cx, cy + k) (cx, cy),
                 CurveTo (cx, cy - k) (cx + sz div 2 - k, cy - sz div 2) (cx + sz div 2, cy - sz div 2),
                 EndPath]"
proof -
  from arc_left_returned [OF assms] obtain k where k: "int_of_product K_ARC (sz div 2) = Inr k" ..
  from int_of_product_returned [OF k] obtain x where
    "float_of_int (sz div 2) = Inr x" "k = real_trunc (float_val (fmul K_ARC x))" by blast
  moreover from arc_left_commands [OF k, of pen cx cy] assms
  have "pen' = pen @ [MoveTo (cx + sz div 2, cy + sz div 2),
                 CurveTo (cx + sz div 2 - k, cy + sz div 2) (cx, cy + k) (cx, cy),
                 CurveTo (cx, cy - k) (cx + sz div 2 - k, cy - sz div 2) (cx + sz div 2, cy - sz div 2),
                 EndPath]" by simp
  ultimately show ?thesis by blast
qed

lemma arc_right_truncated:
  assumes "arc_right pen cx cy sz = Inr pen'"
  shows "\<exists>x k. float_of_int (sz div 2) = Inr x \<and> k = real_trunc (float_val (fmul K_ARC x))
           \<and> pen' = pen @ [MoveTo (cx - sz div 2, cy + sz div 2),
                 CurveTo (cx - sz div 2 + k, cy + sz div 2) (cx, cy + k) (cx, cy),
                 CurveTo (cx, cy - k) (cx - sz div 2 + k, cy - sz div 2) (cx - sz div 2, cy - sz div 2),
                 EndPath]"
proof -
  from arc_right_returned [OF assms] obtain k where k: "int_of_product K_ARC (sz div 2) = Inr k" ..
  from int_of_product_returned [OF k] obtain x where
    "float_of_int (sz div 2) = Inr x" "k = real_trunc (float_val (fmul K_ARC x))" by blast
  moreover from arc_right_commands [OF k, of pen cx cy] assms
  have "pen' = pen @ [MoveTo (cx - sz div 2, cy + sz div 2),
                 CurveTo (cx - sz div 2 + k, cy + sz div 2) (cx, cy + k) (cx, cy),
                 CurveTo (cx, cy - k) (cx - sz div 2 + k, cy - sz div 2) (cx - sz div 2, cy - sz div 2),
                 EndPath]" by simp
  ultimately show ?thesis by blast
qed

lemma circle_offset_50: "int_of_product K_CIRCLE 50 = Inr 27"
proof -
  have "\<bar>50::int\<bar> \<le> 2 ^ 19" by simp
  from circle_offset_exact [OF this] show ?thesis
    by (simp add: real_trunc_def)
qed

lemma float_of_int_finite:
  assumes "float_of_int n = Inr x"
  shows "\<bar>float_val x\<bar> < 2 ^ 1024"
proof (rule ccontr)
  assume "\<not> \<bar>float_val x\<bar> < 2 ^ 1024"
  then have "real_of_int (2 ^ 1024) \<le> \<bar>float_val x\<bar>" by simp
  then have "2 ^ 1024 \<le> \<bar>real_trunc (float_val x)\<bar>" by (rule real_trunc_ge) simp
  then have "is_inf x" by (simp only: is_inf_def float_trunc_real)
  with assms show False
    by (simp add: float_of_int_def Let_def split: if_splits)
qed

lemma int_of_product_bounded_factor:
  assumes x: "float_of_int n = Inr x" and c: "\<bar>float_val c\<bar> \<le> 3 / 4"
  shows "int_of_product c n = Inr (real_trunc (float_val (fmul c x)))"
proof -
  let ?p = "float_val c * float_val x"
  define B :: real where "B = 2 ^ 1024"
  have v: "\<bar>float_val x\<bar> < B"
    unfolding B_def using x by (rule float_of_int_finite)
  have "\<bar>?p\<bar> = \<bar>float_val c\<bar> * \<bar>float_val x\<bar>" by (simp add: abs_mult)
  also have "\<dots> \<le> 3 / 4 * \<bar>float_val x\<bar>"
    using c by (rule mult_right_mono) simp
  finally have p: "\<bar>?p\<bar> \<le> 3 / 4 * \<bar>float_val x\<bar>" .
  have "\<bar>?p\<bar> / 2 ^ 53 \<le> \<bar>?p\<bar> / 4"
    by (rule divide_left_mono) simp_all
  moreover have "\<bar>float_val (fmul c x)\<bar> \<le> \<bar>?p\<bar> + \<bar>?p\<bar> / 2 ^ 53"
    using float_val_fmul_error [of c x] by linarith
  ultimately have "\<bar>float_val (fmul c x)\<bar> < B"
    using p v by linarith
  then have "\<not> is_inf (fmul c x)"
    unfolding B_def by (rule not_is_inf)
  then show ?thesis
    by (simp add: int_of_product_def x rbind_def py_int_def float_trunc_real)
qed

lemma int_of_product_raised:
  assumes "float_of_int n = Inl e"
  shows "int_of_product c n = Inl e"
  by (simp add: int_of_product_def assms rbind_def)

lemma circle_characterised:
  "(case float_of_int r of
      Inl e \<Rightarrow> circle pen cx cy r = Inl e
    | Inr x \<Rightarrow> (\<exists>kr. kr = real_trunc (float_val (fmul K_CIRCLE x))
        \<and> circle pen cx cy r =
            Inr (pen @ [MoveTo (cx, cy + r),
                        CurveTo (cx + kr, cy + r) (cx + r, cy + kr) (cx + r, cy),
                        CurveTo (cx + r, cy - kr) (cx + kr, cy - r) (cx, cy - r),
                        CurveTo (cx - kr, cy - r) (cx - r, cy - kr) (cx - r, cy),
                        CurveTo (cx - r, cy + kr) (cx - kr, cy + r) (cx, cy + r),
                        ClosePath])))"
proof (cases "float_of_int r")
  case (Inl e)
  then show ?thesis
    by (simp add: circle_def int_of_product_raised [OF Inl] rbind_def)
next
  case (Inr x)
  have "\<bar>float_val K_CIRCLE\<bar> \<le> 3 / 4" by (simp add: float_val_K_CIRCLE)
  from circle_commands [OF int_of_product_bounded_factor [OF Inr this], of pen cx cy]
  show ?thesis by (simp add: Inr)
qed

lemma arc_left_characterised:
  "(case float_of_int (sz div 2) of
      Inl e \<Rightarrow> arc_left pen cx cy sz = Inl e
    | Inr x \<Rightarrow> (\<exists>k. k = real_trunc (float_val (fmul K_ARC x))
        \<and> arc_left pen cx cy sz =
            Inr (pen @ [MoveTo (cx + sz div 2, cy + sz div 2),
                 CurveTo (cx + sz div 2 - k, cy + sz div 2) (cx, cy + k) (cx, cy),
                 CurveTo (cx, cy - k) (cx + sz div 2 - k, cy - sz div 2) (cx + sz div 2, cy - sz div 2),
                 EndPath])))"
proof (cases "float_of_int (sz div 2)")
  case (Inl e)
  then show ?thesis
    by (simp add: arc_left_def int_of_product_raised [OF Inl] rbind_def)
next
  case (Inr x)
  have "\<bar>float_val K_ARC\<bar> \<le> 3 / 4" by (simp add: float_val_K_ARC)
  from arc_left_commands [OF int_of_product_bounded_factor [OF Inr this], of pen cx cy]
  show ?thesis by (simp add: Inr)
qed

lemma arc_right_characterised:
  "(case float_of_int (sz div 2) of
      Inl e \<Rightarrow> arc_right pen cx cy sz = Inl e
    | Inr x \<Rightarrow> (\<exists>k. k = real_trunc (float_val (fmul K_ARC x))
        \<and> arc_right pen cx cy sz =
            Inr (pen @ [MoveTo (cx - sz div 2, cy + sz div 2),
                 CurveTo (cx - sz div 2 + k, cy + sz div 2) (cx, cy + k) (cx, cy),
                 CurveTo (cx, cy - k) (cx - sz div 2 + k, cy - sz div 2) (cx - sz div 2, cy - sz div 2),
                 EndPath])))"
proof (cases "float_of_int (sz div 2)")
  case (Inl e)
  then show ?thesis
    by (simp add: arc_right_def int_of_product_raised [OF Inl] rbind_def)
next
  case (Inr x)
  have "\<bar>float_val K_ARC\<bar> \<le> 3 / 4" by (simp add: float_val_K_ARC)
  from arc_right_commands [OF int_of_product_bounded_factor [OF Inr this], of pen cx cy]
  show ?thesis by (simp add: Inr)
qed

lemma arrow_right_commands:
  "arrow_right pen cx cy sz =
     pen @ [MoveTo (cx - sz div 2, cy - sz div 4), LineTo (cx, cy - sz div 4),
            LineTo (cx, cy - sz div 2), LineTo (cx + sz div 2, cy),
            LineTo (cx, cy + sz div 2), LineTo (cx, cy + sz div 4),
            LineTo (cx - sz div 2, cy + sz div 4), ClosePath]"
  by (simp add: arrow_right_def pen_defs Let_def)

lemma arrow_up_commands:
  "arrow_up pen cx cy sz =
     pen @ [MoveTo (cx, cy + sz div 2), LineTo (cx + sz div 2, cy),
            LineTo (cx + sz div 4, cy), LineTo (cx + sz div 4, cy - sz div 2),
            LineTo (cx - sz div 4, cy - sz div 2), LineTo (cx - sz div 4, cy),
            LineTo (cx - sz div 2, cy), ClosePath]"
  by (simp add: arrow_up_def pen_defs Let_def)

lemma arrow_down_commands:
  "arrow_down pen cx cy sz =
     pen @ [MoveTo (cx, cy - sz div 2), LineTo (cx + sz div 2, cy),
            LineTo (cx + sz div 4, cy), LineTo (cx + sz div 4, cy + sz div 2),
            LineTo (cx - sz div 4, cy + sz div 2), LineTo (cx - sz div 4, cy),
            LineTo (cx - sz div 2, cy), ClosePath]"
  by (simp add: arrow_down_def pen_defs Let_def)

lemma floor_div_numeral:
  "sz div 2 = \<lfloor>real_of_int sz / 2\<rfloor>" "sz div 4 = \<lfloor>real_of_int sz / 4\<rfloor>"
  "sz div 6 = \<lfloor>real_of_int sz / 6\<rfloor>"
  using floor_divide_of_int_eq [of sz 2, where ?'a = real]
    floor_divide_of_int_eq [of sz 4, where ?'a = real]
    floor_divide_of_int_eq [of sz 6, where ?'a = real]
  by simp_all

lemma rne_mantissa_bound: "\<bar>rne m (nat (bitlen \<bar>m\<bar> - 53))\<bar> \<le> 2 ^ 53"
proof -
  define sh where "sh = nat (bitlen \<bar>m\<bar> - 53)"
  have up: "\<bar>m\<bar> < 2 ^ (53 + sh)"
  proof -
    have "bitlen \<bar>m\<bar> \<le> int (53 + sh)" by (simp add: sh_def)
    then have "\<bar>m\<bar> < 2 ^ nat (int (53 + sh))" by (simp only: bitlen_le_iff_power)
    then show ?thesis by (simp only: nat_int)
  qed
  have "\<bar>rne m sh * 2 ^ sh\<bar> < 2 ^ (53 + sh) + 2 ^ sh"
  proof -
    define a where "a = rne m sh * 2 ^ sh"
    define P :: int where "P = 2 ^ (53 + sh)"
    define Q :: int where "Q = 2 ^ sh"
    define d where "d = \<bar>a - m\<bar>"
    have "d * 2 \<le> Q"
      unfolding d_def a_def Q_def by (rule rne_error)
    moreover have "0 \<le> d" by (simp add: d_def)
    moreover have "\<bar>m\<bar> < P" using up by (simp only: P_def)
    moreover have "\<bar>a\<bar> \<le> d + \<bar>m\<bar>"
      using abs_triangle_ineq [of "a - m" m] by (simp add: d_def)
    ultimately have "\<bar>a\<bar> < P + Q" by linarith
    then show ?thesis by (simp only: a_def P_def Q_def)
  qed
  also have "\<dots> = (2 ^ 53 + 1) * 2 ^ sh" by (simp add: power_add algebra_simps)
  finally have "\<bar>rne m sh\<bar> * 2 ^ sh < (2 ^ 53 + 1) * 2 ^ sh"
    by (simp add: abs_mult)
  then have "\<bar>rne m sh\<bar> < 2 ^ 53 + 1"
    by (rule mult_right_less_imp_less) simp
  then show ?thesis by (simp add: sh_def)
qed

lemma below_power_gap:
  fixes m :: int
  assumes m: "\<bar>m\<bar> \<le> 2 ^ t" and lt: "\<bar>m\<bar> * 2 ^ s < 2 ^ (t + g)" and t: "0 < t"
  shows "\<bar>m\<bar> * 2 ^ s \<le> 2 ^ (t + g) - 2 ^ g"
proof (cases "s < g")
  case True
  obtain t' where t': "t = Suc t'" using t by (cases t) auto
  have "\<bar>m\<bar> * 2 ^ s \<le> 2 ^ t * 2 ^ s"
    using m by (rule mult_right_mono) simp
  also have "\<dots> = 2 ^ (t + s)" by (simp add: power_add)
  also have "\<dots> \<le> 2 ^ (t + g - 1)"
    using True by (intro power_increasing) simp_all
  also have "(2::int) ^ (t + g - 1) = 2 ^ (t + g) - 2 ^ (t + g - 1)"
    by (simp add: t')
  also have "\<dots> \<le> 2 ^ (t + g) - 2 ^ g"
  proof -
    have "(2::int) ^ g \<le> 2 ^ (t + g - 1)"
      by (intro power_increasing) (simp_all add: t')
    then show ?thesis by simp
  qed
  finally show ?thesis .
next
  case False
  then have gs: "g \<le> s" by simp
  have pg: "(2::int) ^ g \<le> 2 ^ s"
    using gs by (intro power_increasing) simp_all
  show ?thesis
  proof (cases "s < t + g")
    case True
    define d where "d = t + g - s"
    have split: "(2::int) ^ (t + g) = 2 ^ d * 2 ^ s"
      using True by (simp add: d_def power_add [symmetric])
    from lt have "\<bar>m\<bar> * 2 ^ s < 2 ^ d * 2 ^ s" by (simp only: split)
    then have "\<bar>m\<bar> < 2 ^ d"
      by (rule mult_right_less_imp_less) simp
    then have "\<bar>m\<bar> + 1 \<le> 2 ^ d" by simp
    then have "(\<bar>m\<bar> + 1) * 2 ^ s \<le> 2 ^ d * 2 ^ s"
      by (rule mult_right_mono) simp
    then have "\<bar>m\<bar> * 2 ^ s + 2 ^ s \<le> 2 ^ (t + g)"
      by (simp only: split distrib_right mult_1)
    with pg show ?thesis by linarith
  next
    case False
    then have "(2::int) ^ (t + g) \<le> 2 ^ s"
      by (intro power_increasing) simp_all
    with lt have "\<bar>m\<bar> * 2 ^ s < 2 ^ s" by linarith
    then have "\<bar>m\<bar> * 2 ^ s < 1 * 2 ^ s" by simp
    then have "\<bar>m\<bar> < 1"
      by (rule mult_right_less_imp_less) simp
    then have "m = 0" by simp
    moreover have "(2::int) ^ g \<le> 2 ^ (t + g)"
      by (intro power_increasing) simp_all
    ultimately show ?thesis by simp
  qed
qed

lemma float_of_int_below_max:
  assumes "float_of_int n = Inr x"
  shows "\<bar>float_val x\<bar> \<le> 2 ^ 1024 - 2 ^ 971"
proof -
  define sh where "sh = nat (bitlen \<bar>n\<bar> - 53)"
  define mx where "mx = rne n sh"
  from assms have x: "x = PyFloat mx (int sh)" and fin: "\<not> is_inf x"
    by (simp_all add: float_of_int_def normalise_def Let_def sh_def mx_def split: if_splits)
  have tr: "float_trunc x = mx * 2 ^ sh"
    by (simp add: x float_trunc_def)
  from fin have "\<bar>mx * 2 ^ sh\<bar> < 2 ^ 1024"
    by (simp only: is_inf_def tr not_le)
  then have lt: "\<bar>mx\<bar> * 2 ^ sh < 2 ^ (53 + 971)"
    by (simp add: abs_mult)
  have m: "\<bar>mx\<bar> \<le> 2 ^ 53"
    unfolding mx_def sh_def by (rule rne_mantissa_bound)
  have "\<bar>mx\<bar> * 2 ^ sh \<le> 2 ^ (53 + 971) - 2 ^ 971"
    using m lt by (rule below_power_gap) simp
  then have "real_of_int (\<bar>mx\<bar> * 2 ^ sh) \<le> real_of_int (2 ^ (53 + 971) - 2 ^ 971)"
    by (simp only: of_int_le_iff)
  moreover have "\<bar>float_val x\<bar> = real_of_int (\<bar>mx\<bar> * 2 ^ sh)"
    by (simp add: x float_val_PyFloat abs_mult)
  ultimately show ?thesis by simp
qed

lemma int_of_product_unit_factor:
  assumes x: "float_of_int n = Inr x" and c: "\<bar>float_val c\<bar> \<le> 1"
  shows "int_of_product c n = Inr (real_trunc (float_val (fmul c x)))"
proof -
  let ?p = "float_val c * float_val x"
  define B :: real where "B = 2 ^ 1024"
  define G :: real where "G = 2 ^ 971"
  have BG: "B = G * 2 ^ 53" by (simp add: B_def G_def)
  have G: "0 < G" by (simp add: G_def)
  have v: "\<bar>float_val x\<bar> \<le> B - G"
    unfolding B_def G_def using x by (rule float_of_int_below_max)
  have "\<bar>?p\<bar> = \<bar>float_val c\<bar> * \<bar>float_val x\<bar>" by (simp add: abs_mult)
  also have "\<dots> \<le> 1 * \<bar>float_val x\<bar>"
    using c by (rule mult_right_mono) simp
  finally have p: "\<bar>?p\<bar> \<le> B - G" using v by simp
  then have "\<bar>?p\<bar> / 2 ^ 53 \<le> (B - G) / 2 ^ 53"
    by (rule divide_right_mono) simp
  also have "\<dots> = G - G / 2 ^ 53"
    by (simp add: BG field_simps)
  finally have e: "\<bar>?p\<bar> / 2 ^ 53 < G" using G by simp
  have "\<bar>float_val (fmul c x)\<bar> \<le> \<bar>?p\<bar> + \<bar>?p\<bar> / 2 ^ 53"
    using float_val_fmul_error [of c x] by linarith
  with p e have "\<bar>float_val (fmul c x)\<bar> < B" by linarith
  then have "\<not> is_inf (fmul c x)"
    unfolding B_def by (rule not_is_inf)
  then show ?thesis
    by (simp add: int_of_product_def x rbind_def py_int_def float_trunc_real)
qed

lemma star_points_returns:
  assumes L: "libm_bounded L" and o: "float_of_int outer_r = Inr xo"
    and i: "float_of_int inner_r = Inr xi"
  shows "\<exists>ps. star_points L cx cy outer_r inner_r ns = Inr ps"
proof (induction ns)
  case Nil
  show ?case by simp
next
  case (Cons n ns)
  then obtain ps where ps: "star_points L cx cy outer_r inner_r ns = Inr ps" by blast
  define r where "r = (if n mod 2 = 0 then outer_r else inner_r)"
  obtain x where r: "float_of_int r = Inr x"
    using o i by (cases "n mod 2 = 0") (simp_all add: r_def)
  have c: "int_of_product (math_cos L (StarAngle n)) r
             = Inr (real_trunc (float_val (fmul (math_cos L (StarAngle n)) x)))"
    by (rule int_of_product_unit_factor [OF r libm_boundedD(1) [OF L]])
  have s: "int_of_product (math_sin L (StarAngle n)) r
             = Inr (real_trunc (float_val (fmul (math_sin L (StarAngle n)) x)))"
    by (rule int_of_product_unit_factor [OF r libm_boundedD(2) [OF L]])
  show ?case
    using c s ps by (simp add: rbind_def Let_def r_def)
qed

lemma star_5_returns:
  assumes L: "libm_bounded L" and o: "float_of_int outer_r = Inr xo"
    and i: "float_of_int inner_r = Inr xi"
  shows "\<exists>pen'. star_5 L pen cx cy outer_r inner_r = Inr pen'"
proof -
  obtain ps where ps: "star_points L cx cy outer_r inner_r [0..<10] = Inr ps"
    using star_points_returns [OF assms] by blast
  from star_points_length [OF ps] have "length ps = 10" by simp
  then obtain p0 rest where "ps = p0 # rest" by (cases ps) auto
  then show ?thesis
    by (simp add: star_5_def ps rbind_def Let_def)
qed

lemma star_5_drawn_iff:
  assumes L: "libm_bounded L"
  shows "(\<exists>pen'. star_5 L pen cx cy outer_r inner_r = Inr pen')
     \<longleftrightarrow> (\<exists>xo xi. float_of_int outer_r = Inr xo \<and> float_of_int inner_r = Inr xi)"
proof
  assume "\<exists>pen'. star_5 L pen cx cy outer_r inner_r = Inr pen'"
  then obtain pen' where "star_5 L pen cx cy outer_r inner_r = Inr pen'" ..
  from star_5_truncated [OF this] obtain ps where
    ps: "\<forall>j<10. \<exists>x. float_of_int (if j mod 2 = 0 then outer_r else inner_r) = Inr x
          \<and> ps ! j = (cx + real_trunc (float_val (fmul (math_cos L (StarAngle j)) x)),
                      cy + real_trunc (float_val (fmul (math_sin L (StarAngle j)) x)))"
    by blast
  from ps [rule_format, of 0] obtain xo where "float_of_int outer_r = Inr xo" by auto
  moreover from ps [rule_format, of 1] obtain xi where "float_of_int inner_r = Inr xi" by auto
  ultimately show "\<exists>xo xi. float_of_int outer_r = Inr xo \<and> float_of_int inner_r = Inr xi"
    by blast
next
  assume "\<exists>xo xi. float_of_int outer_r = Inr xo \<and> float_of_int inner_r = Inr xi"
  then show "\<exists>pen'. star_5 L pen cx cy outer_r inner_r = Inr pen'"
    using star_5_returns [OF L] by blast
qed

lemma rad_cross_commands:
  "draw_glyph L ''rad:cross'' [] =
     Inr [MoveTo (100, 234), LineTo (500, 234), LineTo (500, 366), LineTo (100, 366), ClosePath,
          MoveTo (234, 100), LineTo (366, 100), LineTo (366, 500), LineTo (234, 500), ClosePath]"
  by (simp add: draw_glyph_def cell_constants cross_commands)

lemma rad_eye_commands:
  "draw_glyph L ''rad:eye'' [] =
     Inr [MoveTo (100, 300),
          CurveTo (200, 400) (400, 400) (500, 300),
          CurveTo (400, 200) (200, 200) (100, 300),
          ClosePath,
          MoveTo (300, 350),
          CurveTo (327, 350) (350, 327) (350, 300),
          CurveTo (350, 273) (327, 250) (300, 250),
          CurveTo (273, 250) (250, 273) (250, 300),
          CurveTo (250, 327) (273, 350) (300, 350),
          ClosePath]"
proof -
  have "draw_glyph L ''rad:eye'' [] =
    circle [MoveTo (100, 300), CurveTo (200, 400) (400, 400) (500, 300),
            CurveTo (400, 200) (200, 200) (100, 300), ClosePath] 300 300 50"
    by (simp add: draw_glyph_def cell_constants pen_defs)
  then show ?thesis
    using circle_commands [OF circle_offset_50] by simp
qed

text \<open>
  Claim C5 says that every emitted coordinate is the nearest integer to the exact
  value. The script never rounds to nearest. A float is converted with \<^verbatim>\<open>int()\<close>,
  which truncates toward zero: for the radius 50 (the pupil of \<^verbatim>\<open>rad:eye\<close>,
  \<^verbatim>\<open>sz // 8\<close>) the exact offset is 27.614..., whose nearest integer is 28, and the
  circle is drawn with 27. A quotient is taken with \<^verbatim>\<open>//\<close>, which rounds toward minus
  infinity: the bars of the cross of size 400 (\<^verbatim>\<open>rad:cross\<close>) have the half thickness
  \<^verbatim>\<open>400 // 6 = 66\<close> where 400 / 6 = 66.67 rounds to 67, so that the horizontal bar
  starts at y = 234 where 300 - 400 / 6 = 233.33 rounds to 233.
\<close>

theorem coordinates_not_nearest:
  "circle [] 0 0 50 =
     Inr [MoveTo (0, 50),
          CurveTo (27, 50) (50, 27) (50, 0),
          CurveTo (50, - 27) (27, - 50) (0, - 50),
          CurveTo (- 27, - 50) (- 50, - 27) (- 50, 0),
          CurveTo (- 50, 27) (- 27, 50) (0, 50),
          ClosePath]
   \<and> round (5522847498 / 10 ^ 10 * real_of_int 50) = 28
   \<and> (\<forall>L. draw_glyph L ''rad:eye'' [] =
        Inr [MoveTo (100, 300),
             CurveTo (200, 400) (400, 400) (500, 300),
             CurveTo (400, 200) (200, 200) (100, 300),
             ClosePath,
             MoveTo (300, 350),
             CurveTo (327, 350) (350, 327) (350, 300),
             CurveTo (350, 273) (327, 250) (300, 250),
             CurveTo (273, 250) (250, 273) (250, 300),
             CurveTo (250, 327) (273, 350) (300, 350),
             ClosePath])
   \<and> cross [] 300 300 400 =
        [MoveTo (100, 234), LineTo (500, 234), LineTo (500, 366), LineTo (100, 366), ClosePath,
         MoveTo (234, 100), LineTo (366, 100), LineTo (366, 500), LineTo (234, 500), ClosePath]
   \<and> (400::int) div 6 = 66
   \<and> round (400 / 6 :: real) = 67
   \<and> round (300 - 400 / 6 :: real) = 233
   \<and> (\<forall>L. draw_glyph L ''rad:cross'' [] =
        Inr [MoveTo (100, 234), LineTo (500, 234), LineTo (500, 366), LineTo (100, 366), ClosePath,
             MoveTo (234, 100), LineTo (366, 100), LineTo (366, 500), LineTo (234, 500), ClosePath])"
proof (intro conjI allI)
  show "circle [] 0 0 50 =
     Inr [MoveTo (0, 50),
          CurveTo (27, 50) (50, 27) (50, 0),
          CurveTo (50, - 27) (27, - 50) (0, - 50),
          CurveTo (- 27, - 50) (- 50, - 27) (- 50, 0),
          CurveTo (- 50, 27) (- 27, 50) (0, 50),
          ClosePath]"
    using circle_commands [OF circle_offset_50, of "[]" 0 0] by simp
  show "round (5522847498 / 10 ^ 10 * real_of_int 50) = 28"
    by (rule round_unique) simp_all
  show "cross [] 300 300 400 =
        [MoveTo (100, 234), LineTo (500, 234), LineTo (500, 366), LineTo (100, 366), ClosePath,
         MoveTo (234, 100), LineTo (366, 100), LineTo (366, 500), LineTo (234, 500), ClosePath]"
    by (simp add: cross_commands)
  show "(400::int) div 6 = 66" by simp
  show "round (400 / 6 :: real) = 67"
    by (rule round_unique) simp_all
  show "round (300 - 400 / 6 :: real) = 233"
    by (rule round_unique) simp_all
next
  fix L
  show "draw_glyph L ''rad:eye'' [] =
        Inr [MoveTo (100, 300),
             CurveTo (200, 400) (400, 400) (500, 300),
             CurveTo (400, 200) (200, 200) (100, 300),
             ClosePath,
             MoveTo (300, 350),
             CurveTo (327, 350) (350, 327) (350, 300),
             CurveTo (350, 273) (327, 250) (300, 250),
             CurveTo (273, 250) (250, 273) (250, 300),
             CurveTo (250, 327) (273, 350) (300, 350),
             ClosePath]"
    by (rule rad_eye_commands)
next
  fix L
  show "draw_glyph L ''rad:cross'' [] =
        Inr [MoveTo (100, 234), LineTo (500, 234), LineTo (500, 366), LineTo (100, 366), ClosePath,
             MoveTo (234, 100), LineTo (366, 100), LineTo (366, 500), LineTo (234, 500), ClosePath]"
    by (rule rad_cross_commands)
qed

text \<open>
  Claim C5, as amended: for every primitive and every input, each emitted coordinate
  is built by integer addition and subtraction from the arguments and from offsets
  that are never rounded to nearest. An offset written with \<^verbatim>\<open>//\<close> is the floor of
  the exact quotient (\<open>size div 2\<close>, \<open>size div 4\<close>, \<open>size div 6\<close>): this gives all
  coordinates of the triangles, the diamond, the three arrows, the rectangle, the
  cross and the wave, the radius of the dot and the half size of the arcs. An offset
  derived from a float is the double-precision product truncated toward zero by
  \<^verbatim>\<open>int()\<close>. The circle, for every radius, either raises the error of converting the
  radius to a float, or draws with the control offset \<^verbatim>\<open>int(0.5522847498 * r)\<close>, the
  double product truncated; for \<open>\<bar>r\<bar> \<le> 2 ^ 19\<close> that is the exact product
  \<open>0.5522847498 * r\<close> truncated toward zero. The arcs, for every size, either raise the
  error of converting \<^verbatim>\<open>size // 2\<close> or draw with the offset
  \<^verbatim>\<open>int(0.55 * (size // 2))\<close>. Each vertex of the star, whenever the star is drawn, is
  \<open>(cx + int(r * cos), cy + int(r * sin))\<close> with the double products truncated, and
  with cosine and sine in \<open>[-1, 1]\<close> the star is drawn exactly when both radii can
  be converted to floats. An integer below \<open>2 ^ 53\<close> in magnitude converts to the
  float of the same value. A floor is at most the quotient and less than 1 below
  it; a truncated value is never larger in magnitude than the product and less than
  1 away from it.
\<close>

theorem coordinates_floored_or_truncated:
  "triangle_up pen cx cy sz =
     pen @ [MoveTo (cx, cy + sz div 2), LineTo (cx + sz div 2, cy - sz div 2),
            LineTo (cx - sz div 2, cy - sz div 2), ClosePath]
   \<and> triangle_down pen cx cy sz =
     pen @ [MoveTo (cx, cy - sz div 2), LineTo (cx + sz div 2, cy + sz div 2),
            LineTo (cx - sz div 2, cy + sz div 2), ClosePath]
   \<and> diamond pen cx cy sz =
     pen @ [MoveTo (cx, cy + sz div 2), LineTo (cx + sz div 2, cy),
            LineTo (cx, cy - sz div 2), LineTo (cx - sz div 2, cy), ClosePath]
   \<and> arrow_right pen cx cy sz =
     pen @ [MoveTo (cx - sz div 2, cy - sz div 4), LineTo (cx, cy - sz div 4),
            LineTo (cx, cy - sz div 2), LineTo (cx + sz div 2, cy),
            LineTo (cx, cy + sz div 2), LineTo (cx, cy + sz div 4),
            LineTo (cx - sz div 2, cy + sz div 4), ClosePath]
   \<and> arrow_up pen cx cy sz =
     pen @ [MoveTo (cx, cy + sz div 2), LineTo (cx + sz div 2, cy),
            LineTo (cx + sz div 4, cy), LineTo (cx + sz div 4, cy - sz div 2),
            LineTo (cx - sz div 4, cy - sz div 2), LineTo (cx - sz div 4, cy),
            LineTo (cx - sz div 2, cy), ClosePath]
   \<and> arrow_down pen cx cy sz =
     pen @ [MoveTo (cx, cy - sz div 2), LineTo (cx + sz div 2, cy),
            LineTo (cx + sz div 4, cy), LineTo (cx + sz div 4, cy + sz div 2),
            LineTo (cx - sz div 4, cy + sz div 2), LineTo (cx - sz div 4, cy),
            LineTo (cx - sz div 2, cy), ClosePath]
   \<and> box_rect pen x y w h =
     pen @ [MoveTo (x, y), LineTo (x + w, y), LineTo (x + w, y + h), LineTo (x, y + h), ClosePath]
   \<and> cross pen cx cy sz =
     pen @ [MoveTo (cx - sz div 2, cy - sz div 6), LineTo (cx - sz div 2 + sz, cy - sz div 6),
            LineTo (cx - sz div 2 + sz, cy - sz div 6 + 2 * (sz div 6)),
            LineTo (cx - sz div 2, cy - sz div 6 + 2 * (sz div 6)), ClosePath,
            MoveTo (cx - sz div 6, cy - sz div 2),
            LineTo (cx - sz div 6 + 2 * (sz div 6), cy - sz div 2),
            LineTo (cx - sz div 6 + 2 * (sz div 6), cy - sz div 2 + sz),
            LineTo (cx - sz div 6, cy - sz div 2 + sz), ClosePath]
   \<and> wave pen cx cy sz =
     pen @ [MoveTo (cx - sz div 2, cy),
            CurveTo (cx - sz div 4, cy + sz div 4) (cx, cy + sz div 4) (cx, cy),
            CurveTo (cx, cy - sz div 4) (cx + sz div 4, cy - sz div 4) (cx + sz div 2, cy),
            EndPath]
   \<and> dot_glyph pen cx cy sz = circle pen cx cy (sz div 6)
   \<and> sz div 2 = \<lfloor>real_of_int sz / 2\<rfloor>
   \<and> sz div 4 = \<lfloor>real_of_int sz / 4\<rfloor>
   \<and> sz div 6 = \<lfloor>real_of_int sz / 6\<rfloor>
   \<and> (case float_of_int r of
        Inl e \<Rightarrow> circle pen cx cy r = Inl e
      | Inr x \<Rightarrow> (\<exists>kr. kr = real_trunc (float_val (fmul K_CIRCLE x))
          \<and> circle pen cx cy r =
              Inr (pen @ [MoveTo (cx, cy + r),
                          CurveTo (cx + kr, cy + r) (cx + r, cy + kr) (cx + r, cy),
                          CurveTo (cx + r, cy - kr) (cx + kr, cy - r) (cx, cy - r),
                          CurveTo (cx - kr, cy - r) (cx - r, cy - kr) (cx - r, cy),
                          CurveTo (cx - r, cy + kr) (cx - kr, cy + r) (cx, cy + r),
                          ClosePath])))
   \<and> (\<bar>r\<bar> \<le> 2 ^ 19 \<longrightarrow>
      (\<exists>kr. kr = real_trunc (5522847498 / 10 ^ 10 * real_of_int r)
          \<and> \<bar>real_of_int kr\<bar> \<le> \<bar>5522847498 / 10 ^ 10 * real_of_int r\<bar>
          \<and> \<bar>5522847498 / 10 ^ 10 * real_of_int r - real_of_int kr\<bar> < 1
          \<and> circle pen cx cy r =
              Inr (pen @ [MoveTo (cx, cy + r),
                          CurveTo (cx + kr, cy + r) (cx + r, cy + kr) (cx + r, cy),
                          CurveTo (cx + r, cy - kr) (cx + kr, cy - r) (cx, cy - r),
                          CurveTo (cx - kr, cy - r) (cx - r, cy - kr) (cx - r, cy),
                          CurveTo (cx - r, cy + kr) (cx - kr, cy + r) (cx, cy + r),
                          ClosePath])))
   \<and> (case float_of_int (sz div 2) of
        Inl e \<Rightarrow> arc_left pen cx cy sz = Inl e
      | Inr x \<Rightarrow> (\<exists>k. k = real_trunc (float_val (fmul K_ARC x))
          \<and> arc_left pen cx cy sz =
              Inr (pen @ [MoveTo (cx + sz div 2, cy + sz div 2),
                 CurveTo (cx + sz div 2 - k, cy + sz div 2) (cx, cy + k) (cx, cy),
                 CurveTo (cx, cy - k) (cx + sz div 2 - k, cy - sz div 2) (cx + sz div 2, cy - sz div 2),
                 EndPath])))
   \<and> (case float_of_int (sz div 2) of
        Inl e \<Rightarrow> arc_right pen cx cy sz = Inl e
      | Inr x \<Rightarrow> (\<exists>k. k = real_trunc (float_val (fmul K_ARC x))
          \<and> arc_right pen cx cy sz =
              Inr (pen @ [MoveTo (cx - sz div 2, cy + sz div 2),
                 CurveTo (cx - sz div 2 + k, cy + sz div 2) (cx, cy + k) (cx, cy),
                 CurveTo (cx, cy - k) (cx - sz div 2 + k, cy - sz div 2) (cx - sz div 2, cy - sz div 2),
                 EndPath])))
   \<and> (\<forall>pen'. star_5 L pen cx cy outer_r inner_r = Inr pen' \<longrightarrow>
        (\<exists>ps. length ps = 10
           \<and> pen' = pen @ MoveTo (ps ! 0) # map LineTo (tl ps) @ [ClosePath]
           \<and> (\<forall>j<10. \<exists>x.
                 float_of_int (if j mod 2 = 0 then outer_r else inner_r) = Inr x
                 \<and> ps ! j = (cx + real_trunc (float_val (fmul (math_cos L (StarAngle j)) x)),
                             cy + real_trunc (float_val (fmul (math_sin L (StarAngle j)) x))))))
   \<and> (libm_bounded L \<longrightarrow>
        ((\<exists>pen'. star_5 L pen cx cy outer_r inner_r = Inr pen')
          \<longleftrightarrow> (\<exists>xo xi. float_of_int outer_r = Inr xo \<and> float_of_int inner_r = Inr xi)))
   \<and> (\<forall>n. \<bar>n\<bar> < 2 ^ 53 \<longrightarrow> float_of_int n = Inr (PyFloat n 0) \<and> float_val (PyFloat n 0) = real_of_int n)
   \<and> (\<forall>v::real. real_of_int \<lfloor>v\<rfloor> \<le> v \<and> v - real_of_int \<lfloor>v\<rfloor> < 1)
   \<and> (\<forall>v. \<bar>real_of_int (real_trunc v)\<bar> \<le> \<bar>v\<bar> \<and> \<bar>v - real_of_int (real_trunc v)\<bar> < 1)"
proof (intro conjI)
  show "triangle_up pen cx cy sz =
     pen @ [MoveTo (cx, cy + sz div 2), LineTo (cx + sz div 2, cy - sz div 2),
            LineTo (cx - sz div 2, cy - sz div 2), ClosePath]"
    by (rule triangle_up_commands)
  show "triangle_down pen cx cy sz =
     pen @ [MoveTo (cx, cy - sz div 2), LineTo (cx + sz div 2, cy + sz div 2),
            LineTo (cx - sz div 2, cy + sz div 2), ClosePath]"
    by (rule triangle_down_commands)
  show "diamond pen cx cy sz =
     pen @ [MoveTo (cx, cy + sz div 2), LineTo (cx + sz div 2, cy),
            LineTo (cx, cy - sz div 2), LineTo (cx - sz div 2, cy), ClosePath]"
    by (rule diamond_commands)
  show "arrow_right pen cx cy sz =
     pen @ [MoveTo (cx - sz div 2, cy - sz div 4), LineTo (cx, cy - sz div 4),
            LineTo (cx, cy - sz div 2), LineTo (cx + sz div 2, cy),
            LineTo (cx, cy + sz div 2), LineTo (cx, cy + sz div 4),
            LineTo (cx - sz div 2, cy + sz div 4), ClosePath]"
    by (rule arrow_right_commands)
  show "arrow_up pen cx cy sz =
     pen @ [MoveTo (cx, cy + sz div 2), LineTo (cx + sz div 2, cy),
            LineTo (cx + sz div 4, cy), LineTo (cx + sz div 4, cy - sz div 2),
            LineTo (cx - sz div 4, cy - sz div 2), LineTo (cx - sz div 4, cy),
            LineTo (cx - sz div 2, cy), ClosePath]"
    by (rule arrow_up_commands)
  show "arrow_down pen cx cy sz =
     pen @ [MoveTo (cx, cy - sz div 2), LineTo (cx + sz div 2, cy),
            LineTo (cx + sz div 4, cy), LineTo (cx + sz div 4, cy + sz div 2),
            LineTo (cx - sz div 4, cy + sz div 2), LineTo (cx - sz div 4, cy),
            LineTo (cx - sz div 2, cy), ClosePath]"
    by (rule arrow_down_commands)
  show "box_rect pen x y w h =
     pen @ [MoveTo (x, y), LineTo (x + w, y), LineTo (x + w, y + h), LineTo (x, y + h), ClosePath]"
    by (rule box_rect_commands)
  show "cross pen cx cy sz =
     pen @ [MoveTo (cx - sz div 2, cy - sz div 6), LineTo (cx - sz div 2 + sz, cy - sz div 6),
            LineTo (cx - sz div 2 + sz, cy - sz div 6 + 2 * (sz div 6)),
            LineTo (cx - sz div 2, cy - sz div 6 + 2 * (sz div 6)), ClosePath,
            MoveTo (cx - sz div 6, cy - sz div 2),
            LineTo (cx - sz div 6 + 2 * (sz div 6), cy - sz div 2),
            LineTo (cx - sz div 6 + 2 * (sz div 6), cy - sz div 2 + sz),
            LineTo (cx - sz div 6, cy - sz div 2 + sz), ClosePath]"
    by (rule cross_commands)
  show "wave pen cx cy sz =
     pen @ [MoveTo (cx - sz div 2, cy),
            CurveTo (cx - sz div 4, cy + sz div 4) (cx, cy + sz div 4) (cx, cy),
            CurveTo (cx, cy - sz div 4) (cx + sz div 4, cy - sz div 4) (cx + sz div 2, cy),
            EndPath]"
    by (rule wave_commands)
  show "dot_glyph pen cx cy sz = circle pen cx cy (sz div 6)"
    by (rule dot_glyph_def)
  show "sz div 2 = \<lfloor>real_of_int sz / 2\<rfloor>" by (rule floor_div_numeral)
  show "sz div 4 = \<lfloor>real_of_int sz / 4\<rfloor>" by (rule floor_div_numeral)
  show "sz div 6 = \<lfloor>real_of_int sz / 6\<rfloor>" by (rule floor_div_numeral)
  show "case float_of_int r of
        Inl e \<Rightarrow> circle pen cx cy r = Inl e
      | Inr x \<Rightarrow> (\<exists>kr. kr = real_trunc (float_val (fmul K_CIRCLE x))
          \<and> circle pen cx cy r =
              Inr (pen @ [MoveTo (cx, cy + r),
                          CurveTo (cx + kr, cy + r) (cx + r, cy + kr) (cx + r, cy),
                          CurveTo (cx + r, cy - kr) (cx + kr, cy - r) (cx, cy - r),
                          CurveTo (cx - kr, cy - r) (cx - r, cy - kr) (cx - r, cy),
                          CurveTo (cx - r, cy + kr) (cx - kr, cy + r) (cx, cy + r),
                          ClosePath]))"
    by (rule circle_characterised)
  show "case float_of_int (sz div 2) of
        Inl e \<Rightarrow> arc_left pen cx cy sz = Inl e
      | Inr x \<Rightarrow> (\<exists>k. k = real_trunc (float_val (fmul K_ARC x))
          \<and> arc_left pen cx cy sz =
              Inr (pen @ [MoveTo (cx + sz div 2, cy + sz div 2),
                 CurveTo (cx + sz div 2 - k, cy + sz div 2) (cx, cy + k) (cx, cy),
                 CurveTo (cx, cy - k) (cx + sz div 2 - k, cy - sz div 2) (cx + sz div 2, cy - sz div 2),
                 EndPath]))"
    by (rule arc_left_characterised)
  show "case float_of_int (sz div 2) of
        Inl e \<Rightarrow> arc_right pen cx cy sz = Inl e
      | Inr x \<Rightarrow> (\<exists>k. k = real_trunc (float_val (fmul K_ARC x))
          \<and> arc_right pen cx cy sz =
              Inr (pen @ [MoveTo (cx - sz div 2, cy + sz div 2),
                 CurveTo (cx - sz div 2 + k, cy + sz div 2) (cx, cy + k) (cx, cy),
                 CurveTo (cx, cy - k) (cx - sz div 2 + k, cy - sz div 2) (cx - sz div 2, cy - sz div 2),
                 EndPath]))"
    by (rule arc_right_characterised)
  show "\<bar>r\<bar> \<le> 2 ^ 19 \<longrightarrow>
      (\<exists>kr. kr = real_trunc (5522847498 / 10 ^ 10 * real_of_int r)
          \<and> \<bar>real_of_int kr\<bar> \<le> \<bar>5522847498 / 10 ^ 10 * real_of_int r\<bar>
          \<and> \<bar>5522847498 / 10 ^ 10 * real_of_int r - real_of_int kr\<bar> < 1
          \<and> circle pen cx cy r =
              Inr (pen @ [MoveTo (cx, cy + r),
                          CurveTo (cx + kr, cy + r) (cx + r, cy + kr) (cx + r, cy),
                          CurveTo (cx + r, cy - kr) (cx + kr, cy - r) (cx, cy - r),
                          CurveTo (cx - kr, cy - r) (cx - r, cy - kr) (cx - r, cy),
                          CurveTo (cx - r, cy + kr) (cx - kr, cy + r) (cx, cy + r),
                          ClosePath]))"
  proof
    assume r: "\<bar>r\<bar> \<le> 2 ^ 19"
    let ?x = "5522847498 / 10 ^ 10 * real_of_int r"
    show "\<exists>kr. kr = real_trunc ?x
          \<and> \<bar>real_of_int kr\<bar> \<le> \<bar>?x\<bar>
          \<and> \<bar>?x - real_of_int kr\<bar> < 1
          \<and> circle pen cx cy r =
              Inr (pen @ [MoveTo (cx, cy + r),
                          CurveTo (cx + kr, cy + r) (cx + r, cy + kr) (cx + r, cy),
                          CurveTo (cx + r, cy - kr) (cx + kr, cy - r) (cx, cy - r),
                          CurveTo (cx - kr, cy - r) (cx - r, cy - kr) (cx - r, cy),
                          CurveTo (cx - r, cy + kr) (cx - kr, cy + r) (cx, cy + r),
                          ClosePath])"
      using circle_commands [OF circle_offset_exact [OF r], of pen cx cy]
        real_trunc_abs_le [of ?x] real_trunc_close [of ?x]
      by (intro exI [of _ "real_trunc ?x"]) simp
  qed
  show "\<forall>pen'. star_5 L pen cx cy outer_r inner_r = Inr pen' \<longrightarrow>
        (\<exists>ps. length ps = 10
           \<and> pen' = pen @ MoveTo (ps ! 0) # map LineTo (tl ps) @ [ClosePath]
           \<and> (\<forall>j<10. \<exists>x.
                 float_of_int (if j mod 2 = 0 then outer_r else inner_r) = Inr x
                 \<and> ps ! j = (cx + real_trunc (float_val (fmul (math_cos L (StarAngle j)) x)),
                             cy + real_trunc (float_val (fmul (math_sin L (StarAngle j)) x)))))"
    by (intro allI impI) (rule star_5_truncated)
  show "libm_bounded L \<longrightarrow>
        ((\<exists>pen'. star_5 L pen cx cy outer_r inner_r = Inr pen')
          \<longleftrightarrow> (\<exists>xo xi. float_of_int outer_r = Inr xo \<and> float_of_int inner_r = Inr xi))"
    by (intro impI) (rule star_5_drawn_iff)
  show "\<forall>n. \<bar>n\<bar> < 2 ^ 53 \<longrightarrow>
          float_of_int n = Inr (PyFloat n 0) \<and> float_val (PyFloat n 0) = real_of_int n"
    by (simp add: float_of_int_small float_val_PyFloat)
  show "\<forall>v::real. real_of_int \<lfloor>v\<rfloor> \<le> v \<and> v - real_of_int \<lfloor>v\<rfloor> < 1"
    by (intro allI conjI; linarith)
  show "\<forall>v. \<bar>real_of_int (real_trunc v)\<bar> \<le> \<bar>v\<bar> \<and> \<bar>v - real_of_int (real_trunc v)\<bar> < 1"
    using real_trunc_abs_le real_trunc_close by blast
qed

theorem coordinates_floored_or_truncated_witness:
  "\<bar>50::int\<bar> \<le> 2 ^ 19
   \<and> circle [] 300 300 50 =
       Inr [MoveTo (300, 350),
            CurveTo (327, 350) (350, 327) (350, 300),
            CurveTo (350, 273) (327, 250) (300, 250),
            CurveTo (273, 250) (250, 273) (250, 300),
            CurveTo (250, 327) (273, 350) (300, 350),
            ClosePath]
   \<and> \<bar>200::int\<bar> < 2 ^ 53
   \<and> float_of_int 200 = Inr (PyFloat 200 0)
   \<and> arc_left [] 300 300 400 =
       Inr [MoveTo (500, 500),
            CurveTo (500 - real_trunc (float_val (fmul K_ARC (PyFloat 200 0))), 500)
                    (300, 300 + real_trunc (float_val (fmul K_ARC (PyFloat 200 0)))) (300, 300),
            CurveTo (300, 300 - real_trunc (float_val (fmul K_ARC (PyFloat 200 0))))
                    (500 - real_trunc (float_val (fmul K_ARC (PyFloat 200 0))), 100) (500, 100),
            EndPath]
   \<and> libm_bounded libm_example \<and> \<bar>100::int\<bar> < 2 ^ 53
   \<and> float_of_int 100 = Inr (PyFloat 100 0)
   \<and> (\<exists>pen' ps. star_5 libm_example [] 300 300 200 100 = Inr pen' \<and> length ps = 10
         \<and> pen' = [] @ MoveTo (ps ! 0) # map LineTo (tl ps) @ [ClosePath])"
proof -
  note T = coordinates_floored_or_truncated [where pen = "[]" and cx = 300 and cy = 300
      and r = 50 and sz = 400 and L = libm_example and outer_r = 200 and inner_r = 100
      and x = 100 and y = 0 and w = 400 and h = 700]
  have h: "\<bar>50::int\<bar> \<le> 2 ^ 19" by simp
  have h200: "\<bar>200::int\<bar> < 2 ^ 53" by simp
  have h100: "\<bar>100::int\<bar> < 2 ^ 53" by simp
  from T have "\<bar>50::int\<bar> \<le> 2 ^ 19 \<longrightarrow>
      (\<exists>kr. kr = real_trunc (5522847498 / 10 ^ 10 * real_of_int 50)
          \<and> \<bar>real_of_int kr\<bar> \<le> \<bar>5522847498 / 10 ^ 10 * real_of_int 50\<bar>
          \<and> \<bar>5522847498 / 10 ^ 10 * real_of_int 50 - real_of_int kr\<bar> < 1
          \<and> circle [] 300 300 50 =
              Inr ([] @ [MoveTo (300, 300 + 50),
                          CurveTo (300 + kr, 300 + 50) (300 + 50, 300 + kr) (300 + 50, 300),
                          CurveTo (300 + 50, 300 - kr) (300 + kr, 300 - 50) (300, 300 - 50),
                          CurveTo (300 - kr, 300 - 50) (300 - 50, 300 - kr) (300 - 50, 300),
                          CurveTo (300 - 50, 300 + kr) (300 - kr, 300 + 50) (300, 300 + 50),
                          ClosePath]))"
    by (elim conjE)
  with h have c: "circle [] 300 300 50 =
       Inr [MoveTo (300, 350),
            CurveTo (327, 350) (350, 327) (350, 300),
            CurveTo (350, 273) (327, 250) (300, 250),
            CurveTo (273, 250) (250, 273) (250, 300),
            CurveTo (250, 327) (273, 350) (300, 350),
            ClosePath]"
    by (simp add: real_trunc_def)
  from T have "\<forall>n. \<bar>n\<bar> < 2 ^ 53 \<longrightarrow>
      float_of_int n = Inr (PyFloat n 0) \<and> float_val (PyFloat n 0) = real_of_int n"
    by (elim conjE)
  with h200 h100 have f: "float_of_int 200 = Inr (PyFloat 200 0)"
    and f100: "float_of_int 100 = Inr (PyFloat 100 0)" by blast+
  from T have "case float_of_int (400 div 2) of
        Inl e \<Rightarrow> arc_left [] 300 300 400 = Inl e
      | Inr x \<Rightarrow> (\<exists>k. k = real_trunc (float_val (fmul K_ARC x))
          \<and> arc_left [] 300 300 400 =
              Inr ([] @ [MoveTo (300 + 400 div 2, 300 + 400 div 2),
                 CurveTo (300 + 400 div 2 - k, 300 + 400 div 2) (300, 300 + k) (300, 300),
                 CurveTo (300, 300 - k) (300 + 400 div 2 - k, 300 - 400 div 2)
                         (300 + 400 div 2, 300 - 400 div 2),
                 EndPath]))"
    by (elim conjE)
  with f have a: "arc_left [] 300 300 400 =
       Inr [MoveTo (500, 500),
            CurveTo (500 - real_trunc (float_val (fmul K_ARC (PyFloat 200 0))), 500)
                    (300, 300 + real_trunc (float_val (fmul K_ARC (PyFloat 200 0)))) (300, 300),
            CurveTo (300, 300 - real_trunc (float_val (fmul K_ARC (PyFloat 200 0))))
                    (500 - real_trunc (float_val (fmul K_ARC (PyFloat 200 0))), 100) (500, 100),
            EndPath]"
    by simp
  from T have st: "\<forall>pen'. star_5 libm_example [] 300 300 200 100 = Inr pen' \<longrightarrow>
        (\<exists>ps. length ps = 10
           \<and> pen' = [] @ MoveTo (ps ! 0) # map LineTo (tl ps) @ [ClosePath]
           \<and> (\<forall>j<10. \<exists>x.
                 float_of_int (if j mod 2 = 0 then 200 else 100) = Inr x
                 \<and> ps ! j = (300 + real_trunc (float_val (fmul (math_cos libm_example (StarAngle j)) x)),
                             300 + real_trunc (float_val (fmul (math_sin libm_example (StarAngle j)) x)))))"
    by (elim conjE)
  from T have "libm_bounded libm_example \<longrightarrow>
        ((\<exists>pen'. star_5 libm_example [] 300 300 200 100 = Inr pen')
          \<longleftrightarrow> (\<exists>xo xi. float_of_int 200 = Inr xo \<and> float_of_int 100 = Inr xi))"
    by (elim conjE)
  with libm_example_bounded f f100
  have "\<exists>pen'. star_5 libm_example [] 300 300 200 100 = Inr pen'" by blast
  with st have s: "\<exists>pen' ps. star_5 libm_example [] 300 300 200 100 = Inr pen' \<and> length ps = 10
         \<and> pen' = [] @ MoveTo (ps ! 0) # map LineTo (tl ps) @ [ClosePath]"
    by blast
  from h c h200 f a libm_example_bounded h100 f100 s show ?thesis by (intro conjI)
qed

section \<open>Every glyph can be drawn\<close>

lemma circle_small:
  assumes "\<bar>r\<bar> \<le> 2 ^ 19"
  shows "\<exists>p. circle pen cx cy r = Inr p"
  using circle_commands [OF circle_offset_exact [OF assms], of pen cx cy] by simp

lemma arc_offset_small:
  assumes "\<bar>n\<bar> < 2 ^ 53"
  shows "int_of_product K_ARC n = Inr (real_trunc (float_val (fmul K_ARC (PyFloat n 0))))"
proof -
  have "\<bar>float_val K_ARC\<bar> \<le> 1" by (simp add: float_val_K_ARC)
  with assms show ?thesis by (rule int_of_product_small)
qed

lemma rbind_Inr [simp]: "rbind (Inr x) f = f x"
  by (simp add: rbind_def)

lemma rbind_total:
  assumes "\<exists>x. r = Inr x" and "\<And>x. \<exists>y. f x = Inr y"
  shows "\<exists>y. rbind r f = Inr y"
  using assms by (auto simp add: rbind_def)

lemma sun_rays_total:
  assumes L: "libm_bounded L" and a: "\<bar>sz div 3 + 20\<bar> < 2 ^ 53" and b: "\<bar>sz div 2\<bar> < 2 ^ 53"
  shows "\<exists>p. sun_rays L pen cx cy sz ns = Inr p"
proof (induction ns arbitrary: pen)
  case Nil
  show ?case by simp
next
  case (Cons i ns)
  note c = libm_boundedD(1) [OF L, of "RayAngle i"]
  note s = libm_boundedD(2) [OF L, of "RayAngle i"]
  show ?case
    using Cons.IH
    by (simp add: int_of_product_small [OF a c] int_of_product_small [OF a s]
          int_of_product_small [OF b c] int_of_product_small [OF b s] Let_def)
qed

lemma draw_glyph_total:
  assumes L: "libm_bounded L"
  shows "\<exists>p. draw_glyph L name pen = Inr p"
proof -
  have star: "\<exists>p. star_5 L pen 300 300 200 100 = Inr p"
    by (rule star_5_total [OF L]) simp_all
  have sun: "\<exists>p. sun_rays L q 300 300 400 [0..<8] = Inr p" for q
    by (rule sun_rays_total [OF L]) simp_all
  have circ: "\<exists>p. circle q x y r = Inr p" if "\<bar>r\<bar> \<le> 200" for q x y r
    using that by (intro circle_small) simp
  have circ2: "\<exists>p. rbind (circle q x y r) f = Inr p"
    if "\<bar>r\<bar> \<le> 200" "\<And>z. \<exists>p. f z = Inr p" for q x y r and f :: "pen \<Rightarrow> py_error + pen"
    using circ [OF that(1)] that(2) by (rule rbind_total)
  have dot: "\<exists>p. dot_glyph q x y 400 = Inr p" for q x y
    unfolding dot_glyph_def by (rule circ) simp
  have pers: "\<exists>p. person q 300 300 400 = Inr p" for q
    unfolding person_def Let_def by (rule circ2) simp_all
  have arcs: "\<exists>p. arc_left q 300 300 400 = Inr p" "\<exists>p. arc_right q 300 300 400 = Inr p" for q
    by (simp_all add: arc_left_def arc_right_def arc_offset_small)
  show ?thesis
    unfolding draw_glyph_def Let_def cell_constants
    by (simp add: circ circ2 star sun dot pers arcs arc_offset_small
          del: sun_rays.simps star_points.simps upt_rec_numeral)
qed

section \<open>Glyph names\<close>

lemma hex_value_hex_char:
  assumes "d < 16"
  shows "hex_value (hex_char d) = Some d"
proof -
  from assms have "d = 0 \<or> d = 1 \<or> d = 2 \<or> d = 3 \<or> d = 4 \<or> d = 5 \<or> d = 6 \<or> d = 7
      \<or> d = 8 \<or> d = 9 \<or> d = 10 \<or> d = 11 \<or> d = 12 \<or> d = 13 \<or> d = 14 \<or> d = 15"
    by arith
  then show ?thesis
    by (auto simp add: hex_char_def hex_value_def)
qed

lemma fold_hex_upper:
  "fold hex_step (hex_upper n) (Some a) = Some (a * 16 ^ length (hex_upper n) + n)"
proof (induction n arbitrary: a rule: hex_upper.induct)
  case (1 n)
  show ?case
  proof (cases "n < 16")
    case True
    then show ?thesis
      by (simp add: hex_upper.simps [of n] hex_step_def hex_value_hex_char)
  next
    case False
    have m: "n mod 16 < 16" by simp
    from False "1.IH" [of a] show ?thesis
      by (simp add: hex_upper.simps [of n] hex_step_def hex_value_hex_char [OF m] algebra_simps)
  qed
qed

lemma hex_value_zero: "hex_value (CHR ''0'') = Some 0"
  by (simp add: hex_value_def)

lemma fold_hex_zeros: "fold hex_step (replicate k (CHR ''0'')) (Some 0) = Some 0"
  by (induction k) (simp_all add: hex_step_def hex_value_zero)

lemma hex_upper_not_empty: "hex_upper n \<noteq> []"
  by (subst hex_upper.simps) simp

lemma int_base16_uni_name: "int_base16 (drop 3 (uni_name cp)) = Some cp"
proof -
  let ?ds = "hex_upper cp"
  let ?s = "replicate (4 - length ?ds) (CHR ''0'') @ ?ds"
  have d: "drop 3 (uni_name cp) = ?s"
    by (simp add: uni_name_def Let_def)
  have ne: "?s \<noteq> []" using hex_upper_not_empty by simp
  have "int_base16 ?s = fold hex_step ?s (Some 0)"
    using ne by (simp only: int_base16_def if_False)
  also have "\<dots> = fold hex_step ?ds (Some 0)"
    by (simp only: fold_append o_apply fold_hex_zeros)
  also have "\<dots> = Some cp"
    by (simp add: fold_hex_upper)
  finally show ?thesis by (simp only: d)
qed

lemma uni_name_not_special: "uni_name cp \<noteq> ''.notdef''" "uni_name cp \<noteq> ''space''"
  by (simp_all add: uni_name_def Let_def)

lemma uni_name_inj: "uni_name a = uni_name b \<Longrightarrow> a = b"
proof -
  assume "uni_name a = uni_name b"
  then have "int_base16 (drop 3 (uni_name a)) = int_base16 (drop 3 (uni_name b))" by simp
  then show "a = b" by (simp add: int_base16_uni_name)
qed

lemma draw_char_string_uni:
  assumes "map_of GLYPH_MAP cp = Some name"
  shows "draw_char_string L (uni_name cp) = Some (draw_glyph L name [])"
  by (simp add: draw_char_string_def uni_name_not_special int_base16_uni_name assms)

section \<open>Glyph order and character map\<close>

lemma uni_names:
  "map uni_name ([0xE000..<0xE023] @ [0xE100..<0xE120]) =
    [''uniE000'', ''uniE001'', ''uniE002'', ''uniE003'', ''uniE004'', ''uniE005'',
     ''uniE006'', ''uniE007'', ''uniE008'', ''uniE009'', ''uniE00A'', ''uniE00B'',
     ''uniE00C'', ''uniE00D'', ''uniE00E'', ''uniE00F'', ''uniE010'', ''uniE011'',
     ''uniE012'', ''uniE013'', ''uniE014'', ''uniE015'', ''uniE016'', ''uniE017'',
     ''uniE018'', ''uniE019'', ''uniE01A'', ''uniE01B'', ''uniE01C'', ''uniE01D'',
     ''uniE01E'', ''uniE01F'', ''uniE020'', ''uniE021'', ''uniE022'', ''uniE100'',
     ''uniE101'', ''uniE102'', ''uniE103'', ''uniE104'', ''uniE105'', ''uniE106'',
     ''uniE107'', ''uniE108'', ''uniE109'', ''uniE10A'', ''uniE10B'', ''uniE10C'',
     ''uniE10D'', ''uniE10E'', ''uniE10F'', ''uniE110'', ''uniE111'', ''uniE112'',
     ''uniE113'', ''uniE114'', ''uniE115'', ''uniE116'', ''uniE117'', ''uniE118'',
     ''uniE119'', ''uniE11A'', ''uniE11B'', ''uniE11C'', ''uniE11D'', ''uniE11E'',
     ''uniE11F'']"
  by (simp add: uni_name_def Let_def hex_upper.simps hex_char_def upt_rec)

lemma name_glyphs_result:
  "name_glyphs items (gs, cm) =
     (gs @ map (\<lambda>item. uni_name (fst item)) items,
      (\<lambda>cp. if cp \<in> fst ` set items then Some (uni_name cp) else cm cp))"
proof (induction items arbitrary: gs cm)
  case Nil
  show ?case by simp
next
  case (Cons item items)
  obtain c n where item: "item = (c, n)" by (cases item)
  show ?case
    by (simp add: item Let_def Cons.IH) (auto simp add: fun_eq_iff)
qed

lemma GLYPH_MAP_sorted: "sort_key fst GLYPH_MAP = GLYPH_MAP"
proof -
  have "sorted (map fst GLYPH_MAP)"
    unfolding GLYPH_MAP_keys by (simp add: sorted_append)
  then show ?thesis by (rule sort_key_id_if_sorted)
qed

lemma GLYPH_MAP_lookup:
  assumes "item \<in> set GLYPH_MAP"
  shows "map_of GLYPH_MAP (fst item) = Some (snd item)"
proof -
  obtain c n where item: "item = (c, n)" by (cases item)
  with assms have "(c, n) \<in> set GLYPH_MAP" by simp
  with GLYPH_MAP_keys_distinct have "map_of GLYPH_MAP c = Some n"
    by (rule map_of_is_SomeI)
  then show ?thesis by (simp add: item)
qed

lemma glyph_names_cmap_result:
  "glyph_names_cmap =
     ([''.notdef'', ''space''] @ map (\<lambda>item. uni_name (fst item)) GLYPH_MAP,
      (\<lambda>cp. if cp \<in> fst ` set GLYPH_MAP then Some (uni_name cp) else [0x20 \<mapsto> ''space''] cp))"
  by (simp only: glyph_names_cmap_def GLYPH_MAP_sorted name_glyphs_result)

text \<open>
  Claim C8, for what \<^verbatim>\<open>build_font\<close> itself computes and hands to the font library.
  The glyph order passed to \<^verbatim>\<open>setupGlyphOrder\<close> is \<^verbatim>\<open>.notdef\<close> first, \<^verbatim>\<open>space\<close>
  second, then the 67 glyphs \<^verbatim>\<open>uniE000\<close> ... \<^verbatim>\<open>uniE11F\<close> in strictly ascending
  codepoint order, 69 names in all. The outline drawn for \<^verbatim>\<open>.notdef\<close> is one closed
  rectangle, nothing is drawn for \<^verbatim>\<open>space\<close> (no subpath), and for every mapped
  codepoint the glyph \<^verbatim>\<open>uniXXXX\<close> is drawn as the dispatch draws the name that
  \<^verbatim>\<open>GLYPH_MAP\<close> gives to the codepoint. The character map passed to
  \<^verbatim>\<open>setupCharacterMap\<close> is defined exactly on
  \<open>{0x20} \<union> {0xE000..0xE022} \<union> {0xE100..0xE11F}\<close>; it sends \<open>0x20\<close> to \<^verbatim>\<open>space\<close> and
  every mapped codepoint to its \<^verbatim>\<open>uniXXXX\<close> name, and every name it gives is in the
  glyph order. With cosine and sine in \<open>[-1, 1]\<close>, every glyph of the order is drawn
  without an error.
\<close>

theorem glyph_order_and_character_map:
  "fst glyph_names_cmap =
       ''.notdef'' # ''space'' # map uni_name ([0xE000..<0xE023] @ [0xE100..<0xE120])
   \<and> map uni_name ([0xE000..<0xE023] @ [0xE100..<0xE120]) =
    [''uniE000'', ''uniE001'', ''uniE002'', ''uniE003'', ''uniE004'', ''uniE005'',
     ''uniE006'', ''uniE007'', ''uniE008'', ''uniE009'', ''uniE00A'', ''uniE00B'',
     ''uniE00C'', ''uniE00D'', ''uniE00E'', ''uniE00F'', ''uniE010'', ''uniE011'',
     ''uniE012'', ''uniE013'', ''uniE014'', ''uniE015'', ''uniE016'', ''uniE017'',
     ''uniE018'', ''uniE019'', ''uniE01A'', ''uniE01B'', ''uniE01C'', ''uniE01D'',
     ''uniE01E'', ''uniE01F'', ''uniE020'', ''uniE021'', ''uniE022'', ''uniE100'',
     ''uniE101'', ''uniE102'', ''uniE103'', ''uniE104'', ''uniE105'', ''uniE106'',
     ''uniE107'', ''uniE108'', ''uniE109'', ''uniE10A'', ''uniE10B'', ''uniE10C'',
     ''uniE10D'', ''uniE10E'', ''uniE10F'', ''uniE110'', ''uniE111'', ''uniE112'',
     ''uniE113'', ''uniE114'', ''uniE115'', ''uniE116'', ''uniE117'', ''uniE118'',
     ''uniE119'', ''uniE11A'', ''uniE11B'', ''uniE11C'', ''uniE11D'', ''uniE11E'',
     ''uniE11F'']
   \<and> sorted_wrt (<) ([0xE000..<0xE023] @ [0xE100..<0xE120] :: nat list)
   \<and> length (fst glyph_names_cmap) = 69
   \<and> draw_char_string L ''.notdef'' =
        Some (Inr [MoveTo (100, 0), LineTo (500, 0), LineTo (500, 700), LineTo (100, 700),
                   ClosePath])
   \<and> subpaths [MoveTo (100, 0), LineTo (500, 0), LineTo (500, 700), LineTo (100, 700), ClosePath] =
        [[MoveTo (100, 0), LineTo (500, 0), LineTo (500, 700), LineTo (100, 700), ClosePath]]
   \<and> all_closed [MoveTo (100, 0), LineTo (500, 0), LineTo (500, 700), LineTo (100, 700), ClosePath]
   \<and> draw_char_string L ''space'' = Some (Inr [])
   \<and> subpaths [] = []
   \<and> dom (snd glyph_names_cmap) = {0x20} \<union> {0xE000..0xE022} \<union> {0xE100..0xE11F}
   \<and> snd glyph_names_cmap 0x20 = Some ''space''
   \<and> (\<forall>cp name. map_of GLYPH_MAP cp = Some name \<longrightarrow>
          snd glyph_names_cmap cp = Some (uni_name cp)
          \<and> uni_name cp \<in> set (fst glyph_names_cmap)
          \<and> draw_char_string L (uni_name cp) = Some (draw_glyph L name []))
   \<and> (\<forall>cp g. snd glyph_names_cmap cp = Some g \<longrightarrow> g \<in> set (fst glyph_names_cmap))
   \<and> (libm_bounded L \<longrightarrow>
        (\<forall>g \<in> set (fst glyph_names_cmap). \<exists>p. draw_char_string L g = Some (Inr p)))"
proof -
  define gs where "gs = [''.notdef'', ''space''] @ map (\<lambda>item. uni_name (fst item)) GLYPH_MAP"
  define cm :: "nat \<rightharpoonup> string" where
    "cm = (\<lambda>cp. if cp \<in> fst ` set GLYPH_MAP then Some (uni_name cp) else [0x20 \<mapsto> ''space''] cp)"
  have ng: "glyph_names_cmap = (gs, cm)"
    by (simp only: glyph_names_cmap_result gs_def cm_def)
  have order: "fst glyph_names_cmap =
      ''.notdef'' # ''space'' # map uni_name ([0xE000..<0xE023] @ [0xE100..<0xE120])"
  proof -
    have "map (\<lambda>item. uni_name (fst item)) GLYPH_MAP = map uni_name (map fst GLYPH_MAP)"
      by (simp add: comp_def)
    then show ?thesis
      by (simp only: ng fst_conv gs_def GLYPH_MAP_keys append_Cons append_Nil)
  qed
  have sorted: "sorted_wrt (<) ([0xE000..<0xE023] @ [0xE100..<0xE120] :: nat list)"
    by (simp add: sorted_wrt_append)
  have len: "length (fst glyph_names_cmap) = 69"
    by (simp add: order)
  have notdef: "draw_char_string L ''.notdef'' =
        Some (Inr [MoveTo (100, 0), LineTo (500, 0), LineTo (500, 700), LineTo (100, 700),
                   ClosePath])"
    by (simp add: draw_char_string_def box_rect_commands)
  have one: "subpaths [MoveTo (100, 0), LineTo (500, 0), LineTo (500, 700), LineTo (100, 700), ClosePath] =
        [[MoveTo (100, 0), LineTo (500, 0), LineTo (500, 700), LineTo (100, 700), ClosePath]]"
    by (simp add: subpath_defs)
  have closed: "all_closed [MoveTo (100, 0), LineTo (500, 0), LineTo (500, 700), LineTo (100, 700), ClosePath]"
    by (simp add: subpath_defs)
  have space: "draw_char_string L ''space'' = Some (Inr [])"
    by (simp add: draw_char_string_def)
  have none: "subpaths [] = []"
    by (simp add: subpath_defs)
  have keys: "fst ` set GLYPH_MAP = {0xE000..0xE022} \<union> {0xE100..0xE11F}"
    using GLYPH_MAP_key_set by simp
  have dom: "dom (snd glyph_names_cmap) = {0x20} \<union> {0xE000..0xE022} \<union> {0xE100..0xE11F}"
  proof -
    have "dom cm = {0x20} \<union> fst ` set GLYPH_MAP"
      by (auto simp add: cm_def dom_def split: if_splits)
    then show ?thesis
      by (simp only: keys ng snd_conv Un_assoc)
  qed
  have sp: "snd glyph_names_cmap 0x20 = Some ''space''"
    by (simp add: ng cm_def keys)
  have glyphs: "\<forall>cp name. map_of GLYPH_MAP cp = Some name \<longrightarrow>
          snd glyph_names_cmap cp = Some (uni_name cp)
          \<and> uni_name cp \<in> set (fst glyph_names_cmap)
          \<and> draw_char_string L (uni_name cp) = Some (draw_glyph L name [])"
  proof (intro allI impI)
    fix cp name
    assume m: "map_of GLYPH_MAP cp = Some name"
    then have mem: "(cp, name) \<in> set GLYPH_MAP" by (rule map_of_SomeD)
    then have k: "cp \<in> fst ` set GLYPH_MAP" by force
    have "uni_name cp \<in> set gs" using mem by (force simp add: gs_def)
    with k draw_char_string_uni [OF m, of L]
    show "snd glyph_names_cmap cp = Some (uni_name cp)
          \<and> uni_name cp \<in> set (fst glyph_names_cmap)
          \<and> draw_char_string L (uni_name cp) = Some (draw_glyph L name [])"
      by (simp add: ng cm_def)
  qed
  have vals: "\<forall>cp g. snd glyph_names_cmap cp = Some g \<longrightarrow> g \<in> set (fst glyph_names_cmap)"
  proof (intro allI impI)
    fix cp g
    assume "snd glyph_names_cmap cp = Some g"
    then have c: "cm cp = Some g" by (simp add: ng)
    show "g \<in> set (fst glyph_names_cmap)"
    proof (cases "cp \<in> fst ` set GLYPH_MAP")
      case True
      with c have "g = uni_name cp" by (simp add: cm_def)
      with True show ?thesis by (force simp add: ng gs_def)
    next
      case False
      with c have "g = ''space''" by (simp add: cm_def split: if_splits)
      then show ?thesis by (simp add: ng gs_def)
    qed
  qed
  have total: "libm_bounded L \<longrightarrow>
        (\<forall>g \<in> set (fst glyph_names_cmap). \<exists>p. draw_char_string L g = Some (Inr p))"
  proof (intro impI ballI)
    fix g
    assume L: "libm_bounded L" and "g \<in> set (fst glyph_names_cmap)"
    then have "g \<in> set gs" by (simp add: ng)
    then consider "g = ''.notdef''" | "g = ''space''"
      | item where "item \<in> set GLYPH_MAP" "g = uni_name (fst item)"
      by (auto simp add: gs_def)
    then show "\<exists>p. draw_char_string L g = Some (Inr p)"
    proof cases
      case 1
      then show ?thesis by (simp add: draw_char_string_def)
    next
      case 2
      then show ?thesis by (simp add: draw_char_string_def)
    next
      case 3
      from draw_char_string_uni [OF GLYPH_MAP_lookup [OF 3(1)], of L] draw_glyph_total [OF L]
      show ?thesis by (simp add: 3(2))
    qed
  qed
  from order uni_names sorted len notdef one closed space none dom sp glyphs vals total
  show ?thesis
    by (intro conjI)
qed

theorem glyph_order_and_character_map_witness:
  "map_of GLYPH_MAP 0xE000 = Some ''is-a''
   \<and> snd glyph_names_cmap 0xE000 = Some ''uniE000''
   \<and> ''uniE000'' \<in> set (fst glyph_names_cmap)
   \<and> draw_char_string libm_example ''uniE000'' = Some (draw_glyph libm_example ''is-a'' [])
   \<and> snd glyph_names_cmap 0x20 = Some ''space''
   \<and> ''space'' \<in> set (fst glyph_names_cmap)
   \<and> libm_bounded libm_example
   \<and> (\<exists>p. draw_char_string libm_example ''uniE000'' = Some (Inr p))
   \<and> take 3 (fst glyph_names_cmap) = [''.notdef'', ''space'', ''uniE000'']
   \<and> length (fst glyph_names_cmap) = 69"
proof -
  note T = glyph_order_and_character_map [of libm_example]
  have m: "map_of GLYPH_MAP 0xE000 = Some ''is-a''"
    by (simp add: GLYPH_MAP_def)
  have u: "uni_name 0xE000 = ''uniE000''"
    by (simp add: uni_name_def Let_def hex_upper.simps hex_char_def)
  from T have order: "fst glyph_names_cmap =
      ''.notdef'' # ''space'' # map uni_name ([0xE000..<0xE023] @ [0xE100..<0xE120])"
    by (elim conjE)
  from T have len: "length (fst glyph_names_cmap) = 69"
    by (elim conjE)
  from T have sp: "snd glyph_names_cmap 0x20 = Some ''space''"
    by (elim conjE)
  from T have "\<forall>cp name. map_of GLYPH_MAP cp = Some name \<longrightarrow>
          snd glyph_names_cmap cp = Some (uni_name cp)
          \<and> uni_name cp \<in> set (fst glyph_names_cmap)
          \<and> draw_char_string libm_example (uni_name cp) = Some (draw_glyph libm_example name [])"
    by (elim conjE)
  with m have g: "snd glyph_names_cmap 0xE000 = Some (uni_name 0xE000)
          \<and> uni_name 0xE000 \<in> set (fst glyph_names_cmap)
          \<and> draw_char_string libm_example (uni_name 0xE000)
               = Some (draw_glyph libm_example ''is-a'' [])"
    by blast
  from T have "\<forall>cp g. snd glyph_names_cmap cp = Some g \<longrightarrow> g \<in> set (fst glyph_names_cmap)"
    by (elim conjE)
  with sp have s: "''space'' \<in> set (fst glyph_names_cmap)" by blast
  from T have "libm_bounded libm_example \<longrightarrow>
        (\<forall>g \<in> set (fst glyph_names_cmap). \<exists>p. draw_char_string libm_example g = Some (Inr p))"
    by (elim conjE)
  with libm_example_bounded g
  have d: "\<exists>p. draw_char_string libm_example (uni_name 0xE000) = Some (Inr p)"
    by blast
  have t: "take 3 (fst glyph_names_cmap) = [''.notdef'', ''space'', ''uniE000'']"
    unfolding order uni_names by simp
  from m g sp s libm_example_bounded d t len show ?thesis
    by (simp only: u)
qed

end
